theory Spec2Isabelle
  imports Main "HOL-Library.AList"
begin

section \<open>Strings as the source splits them\<close>

text \<open>
  Attribute names are Python strings of the form \<open>relation.column\<close> or \<open>column\<close>.
  The source takes them apart with \<open>"." in s\<close>, \<open>s.split(".")[0]\<close>,
  \<open>s.split(".", 1)[1]\<close>, \<open>s.split(".", 1)[-1]\<close>, \<open>s.split(".")[-1]\<close> and
  \<open>s.endswith(t)\<close>.
\<close>

definition has_dot :: "string \<Rightarrow> bool" where
  "has_dot s = (CHR ''.'' \<in> set s)"

definition before_dot :: "string \<Rightarrow> string" where
  \<comment> \<open>\<open>s.split(".")[0]\<close>, which is also \<open>s.split(".", 1)[0]\<close>\<close>
  "before_dot s = takeWhile (\<lambda>c. c \<noteq> CHR ''.'') s"

definition after_dot :: "string \<Rightarrow> string" where
  \<comment> \<open>\<open>s.split(".", 1)[-1]\<close>: the text after the first dot, all of \<open>s\<close> without a dot\<close>
  "after_dot s = (if has_dot s then tl (dropWhile (\<lambda>c. c \<noteq> CHR ''.'') s) else s)"

definition last_part :: "string \<Rightarrow> string" where
  \<comment> \<open>\<open>s.split(".")[-1]\<close>: the text after the last dot\<close>
  "last_part s = rev (takeWhile (\<lambda>c. c \<noteq> CHR ''.'') (rev s))"

definition endswith :: "string \<Rightarrow> string \<Rightarrow> bool" where
  "endswith k t = (length t \<le> length k \<and> drop (length k - length t) k = t)"

fun str_lt :: "string \<Rightarrow> string \<Rightarrow> bool" where
  "str_lt [] [] = False"
| "str_lt [] (y # ys) = True"
| "str_lt (x # xs) [] = False"
| "str_lt (x # xs) (y # ys) =
     ((of_char x :: nat) < of_char y \<or> (x = y \<and> str_lt xs ys))"

section \<open>Values, tuples and scalar expressions\<close>

text \<open>
  A tuple is a Python \<open>dict\<close> read from a JSON object: keys are attribute names, and
  iteration follows insertion order, which the suffix matching of the source depends on.
  It is modelled as an association list. The values covered are JSON's \<open>null\<close>,
  booleans, integers and strings; floating-point numbers and nested arrays or objects
  are outside the model.
\<close>

datatype val = VNone | VBool bool | VInt int | VStr string

type_synonym tuple = "(string \<times> val) list"

datatype error =
    TypeError
  | AttributeError
  | IndexError
  | AssertionError
  | FloatLiteral
  | Unsupported

text \<open>
  \<open>TypeError\<close> is Python's exception for an ordering comparison between values of
  unordered types and for \<open>None + "."\<close>; \<open>Unsupported\<close> is the exception of the task
  compiler for an operator it cannot handle; \<open>AttributeError\<close> is what reading
  \<open>x.val\<close> of a node without that field raises, \<open>IndexError\<close> what
  \<open>inputs[0]\<close> of a node without inputs raises, \<open>AssertionError\<close> a failed
  \<open>assert\<close>. \<open>FloatLiteral\<close> marks the one place
  where the model stops: a numeric literal with a decimal point, which the source turns
  into a float.
\<close>

datatype attr = Attr (attr_rel: "string option") (attr_name: string)

fun str_attr :: "attr \<Rightarrow> string" where
  "str_attr (Attr None n) = n"
| "str_attr (Attr (Some r) n) = r @ ''.'' @ n"

datatype sym = EQ | NE | LT | LE | GT | GE | AND | OR | OtherOp

datatype litkind = RAString | RANumber

datatype valexpr =
    AttrRef attr
  | Literal string litkind
  | BinaryOp valexpr sym valexpr

subsection \<open>Python's comparisons and truth values\<close>

fun num_of :: "val \<Rightarrow> int option" where
  "num_of (VBool b) = Some (if b then 1 else 0)"
| "num_of (VInt i) = Some i"
| "num_of _ = None"

definition py_eq :: "val \<Rightarrow> val \<Rightarrow> bool" where
  "py_eq a b =
     (case (num_of a, num_of b) of
        (Some x, Some y) \<Rightarrow> x = y
      | _ \<Rightarrow> a = b)"

fun py_lt :: "val \<Rightarrow> val \<Rightarrow> error + bool" where
  "py_lt (VStr a) (VStr b) = Inr (str_lt a b)"
| "py_lt a b =
     (case (num_of a, num_of b) of
        (Some x, Some y) \<Rightarrow> Inr (x < y)
      | _ \<Rightarrow> Inl TypeError)"

fun py_le :: "val \<Rightarrow> val \<Rightarrow> error + bool" where
  "py_le (VStr a) (VStr b) = Inr (str_lt a b \<or> a = b)"
| "py_le a b =
     (case (num_of a, num_of b) of
        (Some x, Some y) \<Rightarrow> Inr (x \<le> y)
      | _ \<Rightarrow> Inl TypeError)"

fun truthy :: "val \<Rightarrow> bool" where
  "truthy VNone = False"
| "truthy (VBool b) = b"
| "truthy (VInt i) = (i \<noteq> 0)"
| "truthy (VStr s) = (s \<noteq> [])"

fun lift_bool :: "error + bool \<Rightarrow> error + val" where
  "lift_bool (Inl e) = Inl e"
| "lift_bool (Inr b) = Inr (VBool b)"

fun apply_sym :: "sym \<Rightarrow> val \<Rightarrow> val \<Rightarrow> error + val" where
  "apply_sym EQ l r = Inr (VBool (py_eq l r))"
| "apply_sym NE l r = Inr (VBool (\<not> py_eq l r))"
| "apply_sym LT l r = lift_bool (py_lt l r)"
| "apply_sym LE l r = lift_bool (py_le l r)"
| "apply_sym GT l r = lift_bool (py_lt r l)"
| "apply_sym GE l r = lift_bool (py_le r l)"
| "apply_sym AND l r = Inr (if truthy l then r else l)"
| "apply_sym OR l r = Inr (if truthy l then l else r)"
| "apply_sym OtherOp l r = Inr (VBool False)"

subsection \<open>Attribute resolution and the scalar evaluator\<close>

text \<open>
  \<open>lookup\<close> is the function of that name in \<open>JoinTask.mapper\<close>; the attribute branch
  of \<open>atom_value\<close> in \<open>ChainedTask.mapper\<close>, \<open>JoinTask.reducer\<close> and
  \<open>SelectTask.mapper\<close> is the same text. Python's \<open>None\<close> result is \<open>VNone\<close>.
\<close>

definition suffix_match :: "string \<Rightarrow> string \<times> val \<Rightarrow> bool" where
  "suffix_match suf kv = (endswith (fst kv) (''.'' @ suf) \<or> fst kv = suf)"

definition lookup :: "attr \<Rightarrow> tuple \<Rightarrow> val" where
  "lookup x tup =
     (let a = str_attr x in
      case map_of tup a of
        Some v \<Rightarrow> v
      | None \<Rightarrow>
          (case find (suffix_match (last_part a)) tup of
             Some kv \<Rightarrow> snd kv
           | None \<Rightarrow> VNone))"

definition quoted :: "string \<Rightarrow> bool" where
  "quoted v = (length v \<ge> 2 \<and>
     ((hd v = CHR 0x27 \<and> last v = CHR 0x27) \<or> (hd v = CHR 0x22 \<and> last v = CHR 0x22)))"

fun digit_val :: "char \<Rightarrow> nat" where
  "digit_val c = of_char c - 48"

definition is_digits :: "string \<Rightarrow> bool" where
  "is_digits v = (v \<noteq> [] \<and> list_all (\<lambda>c. 48 \<le> (of_char c :: nat) \<and> (of_char c :: nat) \<le> 57) v)"

definition int_of_digits :: "string \<Rightarrow> int" where
  "int_of_digits v = int (foldl (\<lambda>n c. 10 * n + digit_val c) 0 v)"

text \<open>
  \<open>int(v)\<close> of a literal: the lexer of the RA grammar gives a number literal as a run
  of decimal digits, which is what \<open>is_digits\<close> accepts; any other text makes
  \<open>int\<close> raise, and the source's \<open>except\<close> returns the raw text.
\<close>

fun atom_value :: "valexpr \<Rightarrow> tuple \<Rightarrow> error + val" where
  "atom_value (AttrRef x) tup = Inr (lookup x tup)"
| "atom_value (Literal v k) tup =
     (if quoted v then Inr (VStr (butlast (tl v)))
      else if k = RANumber then
        (if CHR ''.'' \<in> set v then Inl FloatLiteral
         else if is_digits v then Inr (VInt (int_of_digits v))
         else Inr (VStr v))
      else Inr (VStr v))"
| "atom_value (BinaryOp l op r) tup = Inl AttributeError"

fun eval_cond :: "valexpr \<Rightarrow> tuple \<Rightarrow> error + val" where
  "eval_cond (BinaryOp l op r) tup =
     (case eval_cond l tup of
        Inl e \<Rightarrow> Inl e
      | Inr lv \<Rightarrow>
          (case eval_cond r tup of
             Inl e \<Rightarrow> Inl e
           | Inr rv \<Rightarrow> apply_sym op lv rv))"
| "eval_cond c tup = atom_value c tup"

section \<open>Operator executors\<close>

text \<open>
  A row is one input line: a relation label, a tab and a JSON object, that is a
  label and a tuple. \<open>d[k] = v\<close> on a Python \<open>dict\<close> replaces the value of an existing key in
  place and appends a new key, which is \<open>AList.update\<close>. \<open>json.dumps\<close> with
  \<open>sort_keys=True\<close> writes the keys in sorted order; the text it returns is
  modelled by the tuple with its keys sorted.
\<close>

type_synonym row = "string \<times> tuple"

fun insert_sorted :: "string \<times> val \<Rightarrow> tuple \<Rightarrow> tuple" where
  "insert_sorted kv [] = [kv]"
| "insert_sorted kv (x # xs) =
     (if str_lt (fst x) (fst kv) then x # insert_sorted kv xs else kv # x # xs)"

definition sort_keys :: "tuple \<Rightarrow> tuple" where
  "sort_keys tup = foldr insert_sorted tup []"

subsection \<open>Rename\<close>

definition rename_keys :: "string \<Rightarrow> tuple \<Rightarrow> tuple" where
  "rename_keys new_name tup =
     fold (\<lambda>kv renamed. AList.update (new_name @ ''.'' @ after_dot (fst kv)) (snd kv) renamed)
       tup []"

text \<open>
  \<open>RenameTask.mapper\<close>: with \<open>relname\<close> absent, \<open>new_name + "."\<close> is
  \<open>None + "."\<close>, which raises as soon as the loop body runs, that is for every tuple
  with a key; for the empty tuple the loop does not run and the record is emitted under
  the label \<open>None\<close>.
\<close>

fun RenameTask_mapper :: "string option \<Rightarrow> row \<Rightarrow> error + (string option \<times> tuple)" where
  "RenameTask_mapper None (relation, []) = Inr (None, [])"
| "RenameTask_mapper None (relation, kv # tup) = Inl TypeError"
| "RenameTask_mapper (Some new_name) (relation, tup) =
     Inr (Some new_name, rename_keys new_name tup)"

subsection \<open>Project\<close>

definition project_attr :: "tuple \<Rightarrow> attr \<Rightarrow> tuple \<Rightarrow> tuple" where
  \<comment> \<open>the body of the loop over \<open>attrs\<close> in \<open>ProjectTask.mapper\<close>\<close>
  "project_attr json_tuple a out =
     (case map_of json_tuple (str_attr a) of
        Some v \<Rightarrow> AList.update (str_attr a) v out
      | None \<Rightarrow>
          (case find (suffix_match (attr_name a)) json_tuple of
             Some kv \<Rightarrow> AList.update (fst kv) (snd kv) out
           | None \<Rightarrow> out))"

definition ProjectTask_mapper :: "attr list \<Rightarrow> row \<Rightarrow> tuple" where
  \<comment> \<open>the key emitted, \<open>json.dumps(out, sort_keys=True)\<close>; the value is \<open>None\<close>\<close>
  "ProjectTask_mapper attrs line = sort_keys (fold (project_attr (snd line)) attrs [])"

definition ProjectTask_reducer :: "tuple \<Rightarrow> row" where
  "ProjectTask_reducer key =
     (case find (\<lambda>kv. has_dot (fst kv)) key of
        Some kv \<Rightarrow> (before_dot (fst kv), key)
      | None \<Rightarrow> (''result'', key))"

subsection \<open>Select\<close>

definition SelectTask_mapper :: "valexpr \<Rightarrow> row \<Rightarrow> error + row list" where
  "SelectTask_mapper condition line =
     (case eval_cond condition (snd line) of
        Inl e \<Rightarrow> Inl e
      | Inr v \<Rightarrow> Inr (if truthy v then [line] else []))"

subsection \<open>The shuffle\<close>

text \<open>
  Modelled from the spec: the shuffle between a map phase and a reduce phase is the
  external collaborator of the execution framework, not code of this repository. All it
  promises is that the values emitted under one key reach one reduce invocation
  together. \<open>group_by_key\<close> lists the keys in the order of their first emission, each
  with its values in emission order.
\<close>

function group_by_key :: "('k \<times> 'v) list \<Rightarrow> ('k \<times> 'v list) list" where
  "group_by_key [] = []"
| "group_by_key (kv # kvs) =
     (fst kv, snd kv # map snd (filter (\<lambda>p. fst p = fst kv) kvs))
       # group_by_key (filter (\<lambda>p. fst p \<noteq> fst kv) kvs)"
  by pat_completeness auto
termination
  by (relation "measure length") (auto simp: less_Suc_eq_le)

subsection \<open>ChainedOp\<close>

datatype attrspec = NoAttrs | Star | AttrList "string list"

datatype chainop =
    OpSelect valexpr
  | OpProject "attr list"
  | OpRename "string option" attrspec

definition chain_project_attr :: "tuple \<Rightarrow> attr \<Rightarrow> tuple \<Rightarrow> tuple" where
  \<comment> \<open>the body of the loop over \<open>params\<close> in the project branch of \<open>ChainedTask.mapper\<close>\<close>
  "chain_project_attr current_tuple a out =
     (case find (suffix_match (attr_name a)) current_tuple of
        Some kv \<Rightarrow> AList.update (fst kv) (snd kv) out
      | None \<Rightarrow> out)"

text \<open>
  The loop over \<open>raquery.operations\<close> in \<open>ChainedTask.mapper\<close>, on the running
  label and tuple: \<open>None\<close> is the early \<open>return\<close> of a select that fails.
\<close>

fun chain_steps :: "chainop list \<Rightarrow> row \<Rightarrow> error + row option" where
  "chain_steps [] cur = Inr (Some cur)"
| "chain_steps (OpSelect c # ops) cur =
     (case eval_cond c (snd cur) of
        Inl e \<Rightarrow> Inl e
      | Inr v \<Rightarrow> if truthy v then chain_steps ops cur else Inr None)"
| "chain_steps (OpProject params # ops) cur =
     chain_steps ops (fst cur, fold (chain_project_attr (snd cur)) params [])"
| "chain_steps (OpRename None attrnames # ops) cur = chain_steps ops cur"
| "chain_steps (OpRename (Some relname) attrnames # ops) cur =
     chain_steps ops (relname, rename_keys relname (snd cur))"

text \<open>
  \<open>ChainedTask.mapper\<close> on one line. The flag is the instance attribute
  \<open>_touched\<close>: the first call emits the pair \<open>("__touch__", None)\<close> before
  anything else. The value of a surviving record is its tuple written with sorted keys.
\<close>

definition ChainedTask_mapper ::
  "chainop list \<Rightarrow> bool \<Rightarrow> row \<Rightarrow> error + (bool \<times> (string \<times> tuple option) list)" where
  "ChainedTask_mapper operations touched line =
     (let touch = (if touched then [] else [(''__touch__'', None)]) in
      case chain_steps operations line of
        Inl e \<Rightarrow> Inl e
      | Inr None \<Rightarrow> Inr (True, touch)
      | Inr (Some cur) \<Rightarrow> Inr (True, touch @ [(fst cur, Some (sort_keys (snd cur)))]))"

fun chained_map_phase ::
  "chainop list \<Rightarrow> bool \<Rightarrow> row list \<Rightarrow> error + (string \<times> tuple option) list" where
  "chained_map_phase operations touched [] = Inr []"
| "chained_map_phase operations touched (line # lines) =
     (case ChainedTask_mapper operations touched line of
        Inl e \<Rightarrow> Inl e
      | Inr (touched', out) \<Rightarrow>
          (case chained_map_phase operations touched' lines of
             Inl e \<Rightarrow> Inl e
           | Inr outs \<Rightarrow> Inr (out @ outs)))"

text \<open>
  \<open>ChainedTask.reducer\<close>: \<open>emitted\<close> is set by the first value, so it is false
  exactly for an empty group. The placeholder value \<open>json.dumps({})\<close> is the empty
  tuple.
\<close>

fun unseen :: "'a list \<Rightarrow> 'a list \<Rightarrow> 'a list" where
  \<comment> \<open>the values that pass \<open>if v not in seen\<close>, \<open>seen\<close> growing along the loop\<close>
  "unseen seen [] = []"
| "unseen seen (v # vs) =
     (if v \<in> set seen then unseen seen vs else v # unseen (v # seen) vs)"

definition ChainedTask_reducer :: "string \<Rightarrow> tuple option list \<Rightarrow> (string \<times> tuple option) list" where
  "ChainedTask_reducer key values =
     (if key = ''__touch__'' then []
      else map (\<lambda>v. (key, v)) (unseen [] values)
           @ (if values = [] then [(''__empty__'', Some [])] else []))"

definition chained_reduce_phase :: "(string \<times> tuple option) list \<Rightarrow> (string \<times> tuple option) list" where
  "chained_reduce_phase emitted =
     concat (map (\<lambda>g. ChainedTask_reducer (fst g) (snd g)) (group_by_key emitted))"

definition run_chained :: "chainop list \<Rightarrow> row list \<Rightarrow> error + (string \<times> tuple option) list" where
  "run_chained operations lines =
     (case chained_map_phase operations False lines of
        Inl e \<Rightarrow> Inl e
      | Inr emitted \<Rightarrow> Inr (chained_reduce_phase emitted))"

section \<open>Relational-algebra trees\<close>

datatype ra =
    RelRef string
  | Select valexpr ra
  | Project "attr list" ra
  | Rename "string option" attrspec ra
  | Cross ra ra
  | Join ra valexpr ra
  | ChainedOp "chainop list" ra

subsection \<open>Join\<close>

fun collect_eq_pairs :: "valexpr \<Rightarrow> (attr \<times> attr) list" where
  "collect_eq_pairs (BinaryOp (AttrRef l) EQ (AttrRef r)) = [(l, r)]"
| "collect_eq_pairs (BinaryOp l AND r) = collect_eq_pairs l @ collect_eq_pairs r"
| "collect_eq_pairs c = []"

fun digits :: "nat \<Rightarrow> string" where
  "digits n =
     (if n < 10 then [char_of (48 + n)]
      else digits (n div 10) @ [char_of (48 + n mod 10)])"

declare digits.simps [simp del]

fun py_str :: "val \<Rightarrow> string" where
  \<comment> \<open>Python's \<open>str(v)\<close>\<close>
  "py_str VNone = ''None''"
| "py_str (VBool b) = (if b then ''True'' else ''False'')"
| "py_str (VInt i) = (if i < 0 then CHR ''-'' # digits (nat (- i)) else digits (nat i))"
| "py_str (VStr s) = s"

text \<open>
  \<open>json.dumps(vals, separators=(',', ':'))\<close> of a list of strings. The quote and the
  backslash are escaped; control characters and characters beyond ASCII, which
  \<open>json.dumps\<close> writes as escapes too, are written as they are.
\<close>

fun json_escape :: "char \<Rightarrow> string" where
  "json_escape c =
     (if c = CHR 0x22 then [CHR 0x5C, CHR 0x22]
      else if c = CHR 0x5C then [CHR 0x5C, CHR 0x5C]
      else [c])"

definition json_string :: "string \<Rightarrow> string" where
  "json_string s = [CHR 0x22] @ concat (map json_escape s) @ [CHR 0x22]"

fun join_comma :: "string list \<Rightarrow> string" where
  "join_comma [] = []"
| "join_comma [x] = x"
| "join_comma (x # y # ys) = x @ '','' @ join_comma (y # ys)"

definition dumps_list :: "string list \<Rightarrow> string" where
  "dumps_list vals = ''['' @ join_comma (map json_string vals) @ '']''"

definition join_vals :: "valexpr \<Rightarrow> tuple \<Rightarrow> string list" where
  \<comment> \<open>the list \<open>vals\<close> of \<open>JoinTask.mapper\<close>\<close>
  "join_vals condition json_tuple =
     concat (map (\<lambda>lr.
        let v = lookup (fst lr) json_tuple;
            v' = (if v = VNone then lookup (snd lr) json_tuple else v)
        in if v' \<noteq> VNone then [py_str v'] else [])
       (collect_eq_pairs condition))"

definition JoinTask_mapper :: "valexpr \<Rightarrow> row \<Rightarrow> (string \<times> row) list" where
  "JoinTask_mapper condition line =
     (let vals = join_vals condition (snd line) in
      if length vals = 1 then [(hd vals, line)]
      else if length vals > 1 then [(dumps_list vals, line)]
      else [])"

text \<open>
  \<open>rels\<close> of \<open>JoinTask.reducer\<close> returns a Python set; the model lists its
  elements in the order of the traversal. A \<open>Rename\<close> without alias contributes
  \<open>None\<close>. The output label \<open>next(iter(left_r), "joined")\<close> takes some element of
  the set: the model takes the first of the list, which is the element when the set has
  one.
\<close>

fun rels :: "ra \<Rightarrow> string option list" where
  "rels (RelRef r) = [Some r]"
| "rels (Rename relname attrnames e) = [relname]"
| "rels (Select c e) = rels e"
| "rels (Project attrs e) = rels e"
| "rels (ChainedOp ops e) = rels e"
| "rels (Cross l r) = rels l @ rels r"
| "rels (Join l c r) = rels l @ rels r"

definition prefixes_of :: "tuple \<Rightarrow> string list" where
  "prefixes_of tup = map (\<lambda>kv. before_dot (fst kv)) (filter (\<lambda>kv. has_dot (fst kv)) tup)"

definition meets :: "string list \<Rightarrow> string option list \<Rightarrow> bool" where
  \<comment> \<open>\<open>prefixes & rs\<close> is not empty\<close>
  "meets prefixes rs = list_ex (\<lambda>p. Some p \<in> set rs) prefixes"

text \<open>
  The loop of \<open>JoinTask.reducer\<close> that fills \<open>left_t\<close> and \<open>right_t\<close>, one
  grouped value at a time.
\<close>

fun classify ::
  "string option list \<Rightarrow> string option list \<Rightarrow> row list \<Rightarrow> tuple list \<times> tuple list
     \<Rightarrow> tuple list \<times> tuple list" where
  "classify left_r right_r [] acc = acc"
| "classify left_r right_r (v # values) acc =
     (let rel = fst v; tup = snd v; left_t = fst acc; right_t = snd acc in
      if Some rel \<in> set left_r then classify left_r right_r values (left_t @ [tup], right_t)
      else if Some rel \<in> set right_r then classify left_r right_r values (left_t, right_t @ [tup])
      else
        let prefixes = prefixes_of tup;
            left_t' = (if meets prefixes left_r then left_t @ [tup] else left_t);
            right_t' = (if meets prefixes right_r then right_t @ [tup] else right_t)
        in classify left_r right_r values (left_t', right_t'))"

definition merge_dicts :: "tuple \<Rightarrow> tuple \<Rightarrow> tuple" where
  \<comment> \<open>\<open>{**l, **r}\<close>\<close>
  "merge_dicts l r = fold (\<lambda>kv d. AList.update (fst kv) (snd kv) d) r l"

definition candidates :: "tuple list \<Rightarrow> tuple list \<Rightarrow> tuple list" where
  \<comment> \<open>the merged tuples of the nested loops, in loop order\<close>
  "candidates left_t right_t = concat (map (\<lambda>l. map (\<lambda>r. merge_dicts l r) right_t) left_t)"

fun join_emit :: "valexpr \<Rightarrow> tuple list \<Rightarrow> tuple list \<Rightarrow> error + tuple list" where
  "join_emit cond seen [] = Inr []"
| "join_emit cond seen (merged # ms) =
     (case eval_cond cond merged of
        Inl e \<Rightarrow> Inl e
      | Inr v \<Rightarrow>
          if truthy v then
            (let s = sort_keys merged in
             if s \<in> set seen then join_emit cond seen ms
             else (case join_emit cond (s # seen) ms of
                     Inl e \<Rightarrow> Inl e
                   | Inr out \<Rightarrow> Inr (s # out)))
          else join_emit cond seen ms)"

definition JoinTask_reducer ::
  "ra \<Rightarrow> valexpr \<Rightarrow> ra \<Rightarrow> row list \<Rightarrow> error + (string option \<times> tuple) list" where
  "JoinTask_reducer left cond right values =
     (let left_r = rels left; right_r = rels right;
          lr = classify left_r right_r values ([], [])
      in if fst lr = [] \<or> snd lr = [] then Inr []
         else
           (let out_rel = (case left_r of [] \<Rightarrow> Some ''joined'' | x # xs \<Rightarrow> x) in
            case join_emit cond [] (candidates (fst lr) (snd lr)) of
              Inl e \<Rightarrow> Inl e
            | Inr out \<Rightarrow> Inr (map (\<lambda>s. (out_rel, s)) out)))"

fun reduce_groups ::
  "ra \<Rightarrow> valexpr \<Rightarrow> ra \<Rightarrow> (string \<times> row list) list \<Rightarrow> error + (string option \<times> tuple) list" where
  "reduce_groups left cond right [] = Inr []"
| "reduce_groups left cond right (g # gs) =
     (case JoinTask_reducer left cond right (snd g) of
        Inl e \<Rightarrow> Inl e
      | Inr out \<Rightarrow>
          (case reduce_groups left cond right gs of
             Inl e \<Rightarrow> Inl e
           | Inr outs \<Rightarrow> Inr (out @ outs)))"

definition run_join :: "ra \<Rightarrow> valexpr \<Rightarrow> ra \<Rightarrow> row list \<Rightarrow> error + (string option \<times> tuple) list" where
  \<comment> \<open>the Join task on the rows of its two inputs: map, shuffle, reduce\<close>
  "run_join left cond right lines =
     reduce_groups left cond right
       (group_by_key (concat (map (JoinTask_mapper cond) lines)))"

text \<open>
  The reference result in the words of the specification: the merged tuples of all
  pairs of a left and a right tuple on which the condition holds.
\<close>

definition holds :: "valexpr \<Rightarrow> tuple \<Rightarrow> bool" where
  "holds cond tup = (case eval_cond cond tup of Inl e \<Rightarrow> False | Inr v \<Rightarrow> truthy v)"

definition reference_join :: "valexpr \<Rightarrow> tuple list \<Rightarrow> tuple list \<Rightarrow> tuple set" where
  "reference_join cond L R =
     set (filter (holds cond) (concat (map (\<lambda>l. map (\<lambda>r. merge_dicts l r) R) L)))"

subsection \<open>The scenario of the specification\<close>

text \<open>
  The rows of the scenario of the specification: \<open>Person{id, name}\<close> with
  \<open>(1, "Ana")\<close> and \<open>(2, "Bob")\<close>, \<open>Dept{id, pid}\<close> with \<open>(10, 1)\<close> and
  \<open>(20, 2)\<close>, keys qualified by their relation, and the condition
  \<open>Person.id = Dept.pid\<close>.
\<close>

definition ana :: tuple where
  "ana = [(''Person.id'', VInt 1), (''Person.name'', VStr ''Ana'')]"

definition bob :: tuple where
  "bob = [(''Person.id'', VInt 2), (''Person.name'', VStr ''Bob'')]"

definition dept10 :: tuple where
  "dept10 = [(''Dept.id'', VInt 10), (''Dept.pid'', VInt 1)]"

definition dept20 :: tuple where
  "dept20 = [(''Dept.id'', VInt 20), (''Dept.pid'', VInt 2)]"

definition person_dept_cond :: valexpr where
  "person_dept_cond =
     BinaryOp (AttrRef (Attr (Some ''Person'') ''id'')) EQ (AttrRef (Attr (Some ''Dept'') ''pid''))"

section \<open>The optimizer\<close>

subsection \<open>Breaking up and merging selections\<close>

fun is_and :: "valexpr \<Rightarrow> bool" where
  \<comment> \<open>\<open>isinstance(cond, ValExprBinaryOp) and cond.op == sym.AND\<close>\<close>
  "is_and (BinaryOp l AND r) = True"
| "is_and c = False"

fun and_left :: "valexpr \<Rightarrow> valexpr" where
  "and_left (BinaryOp l op r) = l"
| "and_left c = c"

fun and_right :: "valexpr \<Rightarrow> valexpr" where
  "and_right (BinaryOp l op r) = r"
| "and_right c = c"

text \<open>
  \<open>rule_break_up_selections\<close> calls itself on the result of a call on the input, so
  its termination rests on a bound for that result: \<open>weight\<close> does not grow under the
  rule, and a selection weighs twice its condition, which loses one unit for each
  conjunction that is split.
\<close>

fun cond_weight :: "valexpr \<Rightarrow> nat" where
  "cond_weight (BinaryOp l AND r) = cond_weight l + cond_weight r + 1"
| "cond_weight c = 1"

fun weight :: "ra \<Rightarrow> nat" where
  "weight (RelRef r) = 1"
| "weight (Select c e) = 2 * cond_weight c + weight e"
| "weight (Project attrs e) = 1 + weight e"
| "weight (Rename relname attrnames e) = 1 + weight e"
| "weight (Cross l r) = 1 + weight l + weight r"
| "weight (Join l c r) = 1 + weight l + weight r"
| "weight (ChainedOp ops e) = 1 + weight e"

function rule_break_up_selections :: "ra \<Rightarrow> ra" where
  "rule_break_up_selections (Select cond e) =
     (let rewritten_input = rule_break_up_selections e in
      if is_and cond then
        rule_break_up_selections
          (Select (and_left cond) (Select (and_right cond) rewritten_input))
      else Select cond rewritten_input)"
| "rule_break_up_selections (Project attrs e) = Project attrs (rule_break_up_selections e)"
| "rule_break_up_selections (Rename relname attrnames e) =
     Rename relname attrnames (rule_break_up_selections e)"
| "rule_break_up_selections (Cross l r) =
     Cross (rule_break_up_selections l) (rule_break_up_selections r)"
| "rule_break_up_selections (Join l c r) =
     Join (rule_break_up_selections l) c (rule_break_up_selections r)"
| "rule_break_up_selections (RelRef r) = RelRef r"
| "rule_break_up_selections (ChainedOp ops e) = ChainedOp ops e"
  by pat_completeness auto
termination
proof -
  have pos: "0 < cond_weight c" for c
    by (induction c rule: cond_weight.induct) auto
  have parts: "cond_weight c = cond_weight (and_left c) + cond_weight (and_right c) + 1"
    if "is_and c" for c
    using that by (induction c rule: is_and.induct) auto
  have bound: "weight (rule_break_up_selections x) \<le> weight x"
    if "rule_break_up_selections_dom x" for x
    using that
  proof (induction x rule: rule_break_up_selections.pinduct)
    case (1 cond e)
    then show ?case
      by (auto simp: rule_break_up_selections.psimps Let_def parts)
  qed (auto simp: rule_break_up_selections.psimps)
  show ?thesis
  proof (relation "measure weight")
    show "wf (measure weight)" by simp
  next
    fix cond e
    show "(e, Select cond e) \<in> measure weight"
      using pos [of cond] by simp
  next
    fix cond e x
    assume "x = rule_break_up_selections e" "is_and cond" "rule_break_up_selections_dom e"
    then show "(Select (and_left cond) (Select (and_right cond) x), Select cond e)
        \<in> measure weight"
      using bound [of e] by (simp add: parts)
  qed auto
qed

declare rule_break_up_selections.simps [simp del]

fun select_run :: "ra \<Rightarrow> valexpr list \<times> ra" where
  \<comment> \<open>the loop \<open>while isinstance(cur, Select)\<close>: the conditions, outer first, and \<open>cur\<close>\<close>
  "select_run (Select c e) = (c # fst (select_run e), snd (select_run e))"
| "select_run e = ([], e)"

definition and_chain :: "valexpr list \<Rightarrow> valexpr" where
  \<comment> \<open>the loop that builds \<open>merged\<close> from \<open>conditions[0]\<close> on\<close>
  "and_chain conditions =
     foldl (\<lambda>merged c. BinaryOp merged AND c) (hd conditions) (tl conditions)"

function rule_merge_selections :: "ra \<Rightarrow> ra" where
  "rule_merge_selections (Select c e) =
     (let conditions = fst (select_run (Select c e));
          cur = snd (select_run (Select c e));
          base = rule_merge_selections cur
      in if length conditions = 1 then Select (conditions ! 0) base
         else Select (and_chain conditions) base)"
| "rule_merge_selections (Project attrs e) = Project attrs (rule_merge_selections e)"
| "rule_merge_selections (Rename relname attrnames e) =
     Rename relname attrnames (rule_merge_selections e)"
| "rule_merge_selections (Cross l r) =
     Cross (rule_merge_selections l) (rule_merge_selections r)"
| "rule_merge_selections (Join l c r) =
     Join (rule_merge_selections l) c (rule_merge_selections r)"
| "rule_merge_selections (RelRef r) = RelRef r"
| "rule_merge_selections (ChainedOp ops e) = ChainedOp ops e"
  by pat_completeness auto
termination
proof -
  have run: "size (snd (select_run e)) \<le> size e" for e
    by (induction e rule: select_run.induct) auto
  show ?thesis
  proof (relation "measure size")
    fix c e x
    assume "x = snd (select_run (Select c e))"
    then show "(x, Select c e) \<in> measure size"
      using run [of e] by simp
  qed auto
qed

declare rule_merge_selections.simps(1) [simp del]

text \<open>
  Notions in which the two rules are described: the top-level conjuncts of a condition
  in their order, a vertical run of selections over a base, the test for a selection, and
  the two properties of a tree "no selection has a top-level AND" and "no ChainedOp
  node" (the optimizer runs before chain folding).
\<close>

fun conjuncts :: "valexpr \<Rightarrow> valexpr list" where
  "conjuncts (BinaryOp l AND r) = conjuncts l @ conjuncts r"
| "conjuncts c = [c]"

fun selects :: "valexpr list \<Rightarrow> ra \<Rightarrow> ra" where
  "selects [] b = b"
| "selects (c # cs) b = Select c (selects cs b)"

fun is_select :: "ra \<Rightarrow> bool" where
  "is_select (Select c e) = True"
| "is_select e = False"

fun no_and_select :: "ra \<Rightarrow> bool" where
  "no_and_select (Select c e) = (\<not> is_and c \<and> no_and_select e)"
| "no_and_select (Project attrs e) = no_and_select e"
| "no_and_select (Rename relname attrnames e) = no_and_select e"
| "no_and_select (Cross l r) = (no_and_select l \<and> no_and_select r)"
| "no_and_select (Join l c r) = (no_and_select l \<and> no_and_select r)"
| "no_and_select (RelRef r) = True"
| "no_and_select (ChainedOp ops e) = no_and_select e"

fun chain_free :: "ra \<Rightarrow> bool" where
  "chain_free (Select c e) = chain_free e"
| "chain_free (Project attrs e) = chain_free e"
| "chain_free (Rename relname attrnames e) = chain_free e"
| "chain_free (Cross l r) = (chain_free l \<and> chain_free r)"
| "chain_free (Join l c r) = (chain_free l \<and> chain_free r)"
| "chain_free (RelRef r) = True"
| "chain_free (ChainedOp ops e) = False"

text \<open>
  \<open>flat\<close> is what breaking up computes, written by structural recursion; it serves
  the proofs only.
\<close>

fun flat :: "ra \<Rightarrow> ra" where
  "flat (Select c e) = selects (conjuncts c) (flat e)"
| "flat (Project attrs e) = Project attrs (flat e)"
| "flat (Rename relname attrnames e) = Rename relname attrnames (flat e)"
| "flat (Cross l r) = Cross (flat l) (flat r)"
| "flat (Join l c r) = Join (flat l) c (flat r)"
| "flat (RelRef r) = RelRef r"
| "flat (ChainedOp ops e) = ChainedOp ops e"

subsection \<open>Pushing selections down\<close>

text \<open>
  The schema directory \<open>dd\<close> maps a relation name to its attribute names.
  \<open>extract_condition_attrs\<close> returns a Python set; \<open>condition_attr_list\<close> lists the
  names in the order in which the source adds them.
\<close>

type_synonym dd = "string \<rightharpoonup> string list"

fun condition_attr_list :: "valexpr \<Rightarrow> string list" where
  "condition_attr_list (AttrRef a) =
     (let name = str_attr a in
      if has_dot name then [name, after_dot name] else [name])"
| "condition_attr_list (BinaryOp l op r) = condition_attr_list l @ condition_attr_list r"
| "condition_attr_list (Literal v k) = []"

definition extract_condition_attrs :: "valexpr \<Rightarrow> string set" where
  "extract_condition_attrs cond = set (condition_attr_list cond)"

definition requalify :: "string \<Rightarrow> string \<Rightarrow> string set" where
  \<comment> \<open>what the Rename branch of \<open>extract_expr_attrs\<close> adds for one inherited name\<close>
  "requalify relname a =
     (if has_dot a then {after_dot a, relname @ ''.'' @ after_dot a}
      else {a, relname @ ''.'' @ a})"

text \<open>
  In the Rename branch \<open>expr.relname + "."\<close> raises \<open>TypeError\<close> for a Rename without
  alias as soon as the loop over the inherited names runs once. A node kind the function
  does not name (a ChainedOp) gives the empty set.
\<close>

fun extract_expr_attrs :: "dd \<Rightarrow> ra \<Rightarrow> error + string set" where
  "extract_expr_attrs dd (RelRef r) =
     (case dd r of
        None \<Rightarrow> Inr {}
      | Some as \<Rightarrow> Inr (set as \<union> (\<lambda>a. r @ ''.'' @ a) ` set as))"
| "extract_expr_attrs dd (Rename relname attrnames e) =
     (case extract_expr_attrs dd e of
        Inl err \<Rightarrow> Inl err
      | Inr inner \<Rightarrow>
          (case relname of
             None \<Rightarrow> if inner = {} then Inr {} else Inl TypeError
           | Some n \<Rightarrow> Inr (\<Union>a\<in>inner. requalify n a)))"
| "extract_expr_attrs dd (Select c e) = extract_expr_attrs dd e"
| "extract_expr_attrs dd (Project attrs e) = extract_expr_attrs dd e"
| "extract_expr_attrs dd (Cross l r) =
     (case extract_expr_attrs dd l of
        Inl err \<Rightarrow> Inl err
      | Inr la \<Rightarrow>
          (case extract_expr_attrs dd r of
             Inl err \<Rightarrow> Inl err
           | Inr ra \<Rightarrow> Inr (la \<union> ra)))"
| "extract_expr_attrs dd (Join l c r) =
     (case extract_expr_attrs dd l of
        Inl err \<Rightarrow> Inl err
      | Inr la \<Rightarrow>
          (case extract_expr_attrs dd r of
             Inl err \<Rightarrow> Inl err
           | Inr ra \<Rightarrow> Inr (la \<union> ra)))"
| "extract_expr_attrs dd (ChainedOp ops e) = Inr {}"

definition is_join_condition :: "valexpr \<Rightarrow> string set \<Rightarrow> string set \<Rightarrow> bool" where
  "is_join_condition cond left_attrs right_attrs =
     (let cond_attrs = extract_condition_attrs cond;
          qualified = Set.filter has_dot cond_attrs
      in if qualified = {} then
           cond_attrs \<inter> left_attrs \<noteq> {} \<and> cond_attrs \<inter> right_attrs \<noteq> {}
         else
           (let left_prefixes = before_dot ` Set.filter has_dot left_attrs;
                right_prefixes = before_dot ` Set.filter has_dot right_attrs;
                cond_prefixes = before_dot ` qualified
            in cond_prefixes \<inter> left_prefixes \<noteq> {} \<and> cond_prefixes \<inter> right_prefixes \<noteq> {}))"

fun nodes :: "ra \<Rightarrow> nat" where
  "nodes (RelRef r) = 1"
| "nodes (Select c e) = 1 + nodes e"
| "nodes (Project attrs e) = 1 + nodes e"
| "nodes (Rename relname attrnames e) = 1 + nodes e"
| "nodes (Cross l r) = 1 + nodes l + nodes r"
| "nodes (Join l c r) = 1 + nodes l + nodes r"
| "nodes (ChainedOp ops e) = 1 + nodes e"

text \<open>
  \<open>rule_push_down_selections\<close>. The test \<open>can_push_down(cond, left, dd)\<close> is
  \<open>extract_condition_attrs(cond).issubset(extract_expr_attrs(left, dd))\<close>; both
  attribute sets have been computed, without raising, just before it. The rule calls
  itself on a part of the result of a call, so its termination rests on the fact that it
  keeps the number of nodes.
\<close>

function rule_push_down_selections :: "dd \<Rightarrow> ra \<Rightarrow> error + ra" where
  "rule_push_down_selections dd (Select cond e) =
     (case rule_push_down_selections dd e of
        Inl err \<Rightarrow> Inl err
      | Inr child \<Rightarrow>
          (case child of
             Cross left right \<Rightarrow>
               (case extract_expr_attrs dd left of
                  Inl err \<Rightarrow> Inl err
                | Inr left_attrs \<Rightarrow>
                    (case extract_expr_attrs dd right of
                       Inl err \<Rightarrow> Inl err
                     | Inr right_attrs \<Rightarrow>
                         if is_join_condition cond left_attrs right_attrs then
                           Inr (Select cond child)
                         else if extract_condition_attrs cond \<subseteq> left_attrs then
                           (case rule_push_down_selections dd (Select cond left) of
                              Inl err \<Rightarrow> Inl err
                            | Inr pushed \<Rightarrow> Inr (Cross pushed right))
                         else if extract_condition_attrs cond \<subseteq> right_attrs then
                           (case rule_push_down_selections dd (Select cond right) of
                              Inl err \<Rightarrow> Inl err
                            | Inr pushed \<Rightarrow> Inr (Cross left pushed))
                         else Inr (Select cond child)))
           | Select ccond cross \<Rightarrow>
               (case cross of
                  Cross left right \<Rightarrow>
                    (case extract_expr_attrs dd left of
                       Inl err \<Rightarrow> Inl err
                     | Inr left_attrs \<Rightarrow>
                         (case extract_expr_attrs dd right of
                            Inl err \<Rightarrow> Inl err
                          | Inr right_attrs \<Rightarrow>
                              if \<not> is_join_condition cond left_attrs right_attrs
                                 \<and> is_join_condition ccond left_attrs right_attrs then
                                (if extract_condition_attrs cond \<subseteq> left_attrs then
                                   (case rule_push_down_selections dd (Select cond left) of
                                      Inl err \<Rightarrow> Inl err
                                    | Inr pushed \<Rightarrow> Inr (Select ccond (Cross pushed right)))
                                 else if extract_condition_attrs cond \<subseteq> right_attrs then
                                   (case rule_push_down_selections dd (Select cond right) of
                                      Inl err \<Rightarrow> Inl err
                                    | Inr pushed \<Rightarrow> Inr (Select ccond (Cross left pushed)))
                                 else Inr (Select cond child))
                              else Inr (Select cond child)))
                | _ \<Rightarrow> Inr (Select cond child))
           | _ \<Rightarrow> Inr (Select cond child)))"
| "rule_push_down_selections dd (Project attrs e) =
     (case rule_push_down_selections dd e of
        Inl err \<Rightarrow> Inl err
      | Inr e' \<Rightarrow> Inr (Project attrs e'))"
| "rule_push_down_selections dd (Rename relname attrnames e) =
     (case rule_push_down_selections dd e of
        Inl err \<Rightarrow> Inl err
      | Inr e' \<Rightarrow> Inr (Rename relname attrnames e'))"
| "rule_push_down_selections dd (Cross l r) =
     (case rule_push_down_selections dd l of
        Inl err \<Rightarrow> Inl err
      | Inr l' \<Rightarrow>
          (case rule_push_down_selections dd r of
             Inl err \<Rightarrow> Inl err
           | Inr r' \<Rightarrow> Inr (Cross l' r')))"
| "rule_push_down_selections dd (Join l c r) =
     (case rule_push_down_selections dd l of
        Inl err \<Rightarrow> Inl err
      | Inr l' \<Rightarrow>
          (case rule_push_down_selections dd r of
             Inl err \<Rightarrow> Inl err
           | Inr r' \<Rightarrow> Inr (Join l' c r')))"
| "rule_push_down_selections dd (RelRef r) = Inr (RelRef r)"
| "rule_push_down_selections dd (ChainedOp ops e) = Inr (ChainedOp ops e)"
  by pat_completeness auto
termination
proof -
  have keeps: "nodes y = nodes x"
    if "rule_push_down_selections_dom (dd, x)" and "rule_push_down_selections dd x = Inr y"
    for dd x y
    using that
  proof (induction dd x arbitrary: y rule: rule_push_down_selections.pinduct)
    case (1 dd cond e)
    note dom = "1.hyps" and IH = "1.IH" and eq = "1.prems"
    note unfold = rule_push_down_selections.psimps(1) [OF dom]
    from eq obtain child where ch: "rule_push_down_selections dd e = Inr child"
      by (auto simp: unfold split: sum.splits)
    have n: "nodes child = nodes e"
      using IH(1) [OF ch] .
    show ?case
    proof (cases child)
      case (Cross left right)
      from eq ch Cross obtain la ra
        where la: "extract_expr_attrs dd left = Inr la" and ra: "extract_expr_attrs dd right = Inr ra"
        by (auto simp: unfold split: sum.splits)
      note L = IH(4) [OF ch Cross la ra] and R = IH(5) [OF ch Cross la ra]
      show ?thesis
      proof (cases "is_join_condition cond la ra")
        case True
        with eq ch Cross la ra n show ?thesis by (auto simp: unfold)
      next
        case nj: False
        show ?thesis
        proof (cases "extract_condition_attrs cond \<subseteq> la")
          case True
          with eq ch Cross la ra nj obtain p
            where p: "rule_push_down_selections dd (Select cond left) = Inr p" and y: "y = Cross p right"
            by (auto simp: unfold split: sum.splits)
          from L [OF nj True p] y n Cross show ?thesis by simp
        next
          case nl: False
          show ?thesis
          proof (cases "extract_condition_attrs cond \<subseteq> ra")
            case True
            with eq ch Cross la ra nj nl obtain p
              where p: "rule_push_down_selections dd (Select cond right) = Inr p" and y: "y = Cross left p"
              by (auto simp: unfold split: sum.splits)
            from R [OF nj nl True p] y n Cross show ?thesis by simp
          next
            case False
            with eq ch Cross la ra nj nl n show ?thesis by (auto simp: unfold)
          qed
        qed
      qed
    next
      case (Select ccond cross)
      show ?thesis
      proof (cases cross)
        case (Cross left right)
        from eq ch Select Cross obtain la ra
          where la: "extract_expr_attrs dd left = Inr la" and ra: "extract_expr_attrs dd right = Inr ra"
          by (auto simp: unfold split: sum.splits)
        note L = IH(2) [OF ch Select Cross la ra] and R = IH(3) [OF ch Select Cross la ra]
        show ?thesis
        proof (cases "\<not> is_join_condition cond la ra \<and> is_join_condition ccond la ra")
          case False
          with eq ch Select Cross la ra n show ?thesis by (auto simp: unfold)
        next
          case nj: True
          show ?thesis
          proof (cases "extract_condition_attrs cond \<subseteq> la")
            case True
            with eq ch Select Cross la ra nj obtain p
              where p: "rule_push_down_selections dd (Select cond left) = Inr p"
                and y: "y = Select ccond (Cross p right)"
              by (auto simp: unfold split: sum.splits)
            from L [OF nj True p] y n Select Cross show ?thesis by simp
          next
            case nl: False
            show ?thesis
            proof (cases "extract_condition_attrs cond \<subseteq> ra")
              case True
              with eq ch Select Cross la ra nj nl obtain p
                where p: "rule_push_down_selections dd (Select cond right) = Inr p"
                  and y: "y = Select ccond (Cross left p)"
                by (auto simp: unfold split: sum.splits)
              from R [OF nj nl True p] y n Select Cross show ?thesis by simp
            next
              case False
              with eq ch Select Cross la ra nj nl n show ?thesis by (auto simp: unfold)
            qed
          qed
        qed
      qed (use eq ch n Select in \<open>auto simp: unfold\<close>)
    qed (use eq ch n in \<open>auto simp: unfold\<close>)
  next
    case (2 dd attrs e)
    then show ?case by (auto simp: rule_push_down_selections.psimps(2) split: sum.splits)
  next
    case (3 dd relname attrnames e)
    then show ?case by (auto simp: rule_push_down_selections.psimps(3) split: sum.splits)
  next
    case (4 dd l r)
    then show ?case by (auto simp: rule_push_down_selections.psimps(4) split: sum.splits)
  next
    case (5 dd l c r)
    then show ?case by (auto simp: rule_push_down_selections.psimps(5) split: sum.splits)
  next
    case (6 dd r)
    then show ?case by (auto simp: rule_push_down_selections.psimps(6))
  next
    case (7 dd ops e)
    then show ?case by (auto simp: rule_push_down_selections.psimps(7))
  qed
  show ?thesis
  proof (relation "measure (\<lambda>p. nodes (snd p))", goal_cases)
    case 1
    show ?case by simp
  next
    case 2
    show ?case by simp
  next
    case 3
    then show ?case by (auto dest: keeps)
  next
    case 4
    then show ?case by (auto dest: keeps)
  next
    case 5
    then show ?case by (auto dest: keeps)
  next
    case 6
    then show ?case by (auto dest: keeps)
  qed auto
qed

declare rule_push_down_selections.simps(1) [simp del]

text \<open>
  The scenario of the specification for the push-down: the schema of \<open>Person\<close> and
  \<open>Dept\<close> and the condition \<open>Person.id = 5\<close>.
\<close>

definition scenario_dd :: dd where
  "scenario_dd = map_of [(''Person'', [''id'', ''name'']), (''Dept'', [''id'', ''pid''])]"

definition person_id_5 :: valexpr where
  "person_id_5 = BinaryOp (AttrRef (Attr (Some ''Person'') ''id'')) EQ (Literal ''5'' RANumber)"

section \<open>The task compiler\<close>

fun count_steps :: "ra \<Rightarrow> error + nat" where
  "count_steps (ChainedOp ops e) =
     (case count_steps e of Inl err \<Rightarrow> Inl err | Inr n \<Rightarrow> Inr (1 + n))"
| "count_steps (Select c e) =
     (case count_steps e of Inl err \<Rightarrow> Inl err | Inr n \<Rightarrow> Inr (1 + n))"
| "count_steps (Project attrs e) =
     (case count_steps e of Inl err \<Rightarrow> Inl err | Inr n \<Rightarrow> Inr (1 + n))"
| "count_steps (Rename relname attrnames e) =
     (case count_steps e of Inl err \<Rightarrow> Inl err | Inr n \<Rightarrow> Inr (1 + n))"
| "count_steps (Join l c r) =
     (case count_steps l of
        Inl err \<Rightarrow> Inl err
      | Inr a \<Rightarrow> (case count_steps r of Inl err \<Rightarrow> Inl err | Inr b \<Rightarrow> Inr (1 + a + b)))"
| "count_steps (RelRef r) = Inr 1"
| "count_steps (Cross l r) = Inl Unsupported"

text \<open>
  \<open>try_fold_chain\<close>: \<open>collect_chain\<close> is its loop, which gives the operations of the
  run outer first and the node at which the run stops.
\<close>

fun collect_chain :: "ra \<Rightarrow> chainop list \<times> ra" where
  "collect_chain (Select c e) = (OpSelect c # fst (collect_chain e), snd (collect_chain e))"
| "collect_chain (Project attrs e) = (OpProject attrs # fst (collect_chain e), snd (collect_chain e))"
| "collect_chain (Rename relname attrnames e) =
     (OpRename relname attrnames # fst (collect_chain e), snd (collect_chain e))"
| "collect_chain e = ([], e)"

fun try_fold_chain :: "ra \<Rightarrow> ra" where
  "try_fold_chain (Select c e) =
     (let operations = fst (collect_chain (Select c e)); current = snd (collect_chain (Select c e)) in
      if length operations \<ge> 2 then ChainedOp (rev operations) current
      else Select c (try_fold_chain e))"
| "try_fold_chain (Project attrs e) =
     (let operations = fst (collect_chain (Project attrs e));
          current = snd (collect_chain (Project attrs e)) in
      if length operations \<ge> 2 then ChainedOp (rev operations) current
      else Project attrs (try_fold_chain e))"
| "try_fold_chain (Rename relname attrnames e) =
     (let operations = fst (collect_chain (Rename relname attrnames e));
          current = snd (collect_chain (Rename relname attrnames e)) in
      if length operations \<ge> 2 then ChainedOp (rev operations) current
      else Rename relname attrnames (try_fold_chain e))"
| "try_fold_chain (Join l c r) = Join (try_fold_chain l) c (try_fold_chain r)"
| "try_fold_chain (RelRef r) = RelRef r"
| "try_fold_chain (Cross l r) = Cross l r"
| "try_fold_chain (ChainedOp ops e) = ChainedOp ops e"

subsection \<open>Tasks and what they require\<close>

text \<open>
  A task holds its subtree as text, \<open>str(raquery) + ";"\<close>, and \<open>requires\<close> parses
  that text again. The parser and the renderer of the grammar's own nodes are external;
  the renderer of a ChainedOp is \<open>ChainedOp.__str__\<close>, which writes one prefix
  operator for each stored operation, outer first, and then the rendering of the input,
  in parentheses only when the input is a relation reference. What the parser reads from
  such a text depends on the grammar, so the tree read back from the rendering of a tree
  is a parameter of the compilation, the \<open>reader\<close>: it gives the parsed tree or the
  exception of the parser. A task is modelled by its kind, the tree whose rendering is its
  query string, and its step; \<open>InputData\<close> has a file name and no step.
\<close>

type_synonym reader = "ra \<Rightarrow> error + ra"

datatype task =
    InputData string
  | ChainedTask ra nat
  | SelectTask ra nat
  | JoinTask ra nat
  | ProjectTask ra nat
  | RenameTask ra nat

definition task_factory :: "bool \<Rightarrow> ra \<Rightarrow> nat \<Rightarrow> error + task" where
  "task_factory optimize raquery step =
     (let q = (if optimize then try_fold_chain raquery else raquery) in
      case q of
        ChainedOp ops e \<Rightarrow> Inr (ChainedTask q step)
      | Select c e \<Rightarrow> Inr (SelectTask q step)
      | RelRef r \<Rightarrow> Inr (InputData (r @ ''.json''))
      | Join l c r \<Rightarrow> Inr (JoinTask q step)
      | Project attrs e \<Rightarrow> Inr (ProjectTask q step)
      | Rename relname attrnames e \<Rightarrow> Inr (RenameTask q step)
      | Cross l r \<Rightarrow> Inl Unsupported)"

fun first_input :: "ra \<Rightarrow> ra option" where
  \<comment> \<open>\<open>raquery.inputs[0]\<close>\<close>
  "first_input (RelRef r) = None"
| "first_input (Select c e) = Some e"
| "first_input (Project attrs e) = Some e"
| "first_input (Rename relname attrnames e) = Some e"
| "first_input (Cross l r) = Some l"
| "first_input (Join l c r) = Some l"
| "first_input (ChainedOp ops e) = Some e"

text \<open>
  \<open>requires\<close> gives the arguments of the \<open>task_factory\<close> calls a task makes for its
  dependencies. The exceptions of \<open>task_factory\<close> and of \<open>count_steps\<close> are both
  \<open>Exception\<close> with a message, here \<open>Unsupported\<close>.
\<close>

fun requires :: "reader \<Rightarrow> task \<Rightarrow> error + (ra \<times> nat) list" where
  "requires reread (InputData filename) = Inr []"
| "requires reread (ChainedTask querystring step) =
     (case reread querystring of
        Inl err \<Rightarrow> Inl err
      | Inr parsed \<Rightarrow>
          (case first_input (try_fold_chain parsed) of
             None \<Rightarrow> Inl IndexError
           | Some e \<Rightarrow> Inr [(e, step + 1)]))"
| "requires reread (SelectTask querystring step) =
     (case reread querystring of
        Inl err \<Rightarrow> Inl err
      | Inr raquery \<Rightarrow>
          (case raquery of Select c e \<Rightarrow> Inr [(e, step + 1)] | _ \<Rightarrow> Inl AssertionError))"
| "requires reread (ProjectTask querystring step) =
     (case reread querystring of
        Inl err \<Rightarrow> Inl err
      | Inr raquery \<Rightarrow>
          (case raquery of Project attrs e \<Rightarrow> Inr [(e, step + 1)] | _ \<Rightarrow> Inl AssertionError))"
| "requires reread (RenameTask querystring step) =
     (case reread querystring of
        Inl err \<Rightarrow> Inl err
      | Inr raquery \<Rightarrow>
          (case raquery of
             Rename relname attrnames e \<Rightarrow> Inr [(e, step + 1)]
           | _ \<Rightarrow> Inl AssertionError))"
| "requires reread (JoinTask querystring step) =
     (case reread querystring of
        Inl err \<Rightarrow> Inl err
      | Inr raquery \<Rightarrow>
          (case raquery of
             Join l c r \<Rightarrow>
               (case count_steps l of
                  Inl err \<Rightarrow> Inl err
                | Inr n \<Rightarrow> Inr [(l, step + 1), (r, step + n + 1)])
           | _ \<Rightarrow> Inl AssertionError))"

fun task_step :: "task \<Rightarrow> nat list" where
  "task_step (InputData filename) = []"
| "task_step (ChainedTask querystring step) = [step]"
| "task_step (SelectTask querystring step) = [step]"
| "task_step (JoinTask querystring step) = [step]"
| "task_step (ProjectTask querystring step) = [step]"
| "task_step (RenameTask querystring step) = [step]"

subsection \<open>The tasks of a query\<close>

text \<open>
  The scheduler calls \<open>requires\<close> on every task it is given, so the tasks of a query
  are those reached from its root task; \<open>dag_steps\<close> lists their steps. Whether this
  ends depends on the reader, so the recursion carries fuel: \<open>None\<close> is fuel
  exhausted, \<open>Some (Inl err)\<close> an exception, \<open>Some (Inr steps)\<close> the steps.
\<close>

fun gather :: "(error + nat list) option list \<Rightarrow> (error + nat list) option" where
  "gather [] = Some (Inr [])"
| "gather (None # rs) = None"
| "gather (Some (Inl err) # rs) = Some (Inl err)"
| "gather (Some (Inr xs) # rs) =
     (case gather rs of
        None \<Rightarrow> None
      | Some (Inl err) \<Rightarrow> Some (Inl err)
      | Some (Inr ys) \<Rightarrow> Some (Inr (xs @ ys)))"

fun dag_steps :: "nat \<Rightarrow> reader \<Rightarrow> bool \<Rightarrow> ra \<Rightarrow> nat \<Rightarrow> (error + nat list) option" where
  "dag_steps 0 reread optimize raquery step = None"
| "dag_steps (Suc fuel) reread optimize raquery step =
     (case task_factory optimize raquery step of
        Inl err \<Rightarrow> Some (Inl err)
      | Inr t \<Rightarrow>
          (case requires reread t of
             Inl err \<Rightarrow> Some (Inl err)
           | Inr calls \<Rightarrow>
               (case gather (map (\<lambda>call. dag_steps fuel reread optimize (fst call) (snd call)) calls) of
                  None \<Rightarrow> None
                | Some (Inl err) \<Rightarrow> Some (Inl err)
                | Some (Inr below) \<Rightarrow> Some (Inr (task_step t @ below)))))"

text \<open>
  Two facts about reading back are used, and nothing else. The parser builds nodes of
  the grammar only, so the tree it returns has no ChainedOp node. And it returns no more
  operators than the text has: \<open>unfolded\<close> counts the operators and relation
  references a rendering writes, one for each node and, by \<open>ChainedOp.__str__\<close>, one
  for each operation of a ChainedOp.
\<close>

fun unfolded :: "ra \<Rightarrow> nat" where
  "unfolded (RelRef r) = 1"
| "unfolded (Select c e) = 1 + unfolded e"
| "unfolded (Project attrs e) = 1 + unfolded e"
| "unfolded (Rename relname attrnames e) = 1 + unfolded e"
| "unfolded (Cross l r) = 1 + unfolded l + unfolded r"
| "unfolded (Join l c r) = 1 + unfolded l + unfolded r"
| "unfolded (ChainedOp ops e) = length ops + unfolded e"

definition sound_reader :: "reader \<Rightarrow> bool" where
  "sound_reader reread =
     (\<forall>q r. reread q = Inr r \<longrightarrow> chain_free r \<and> unfolded r \<le> unfolded q)"

text \<open>
  A reader with these properties, on which the compilation can be run. It follows the
  text \<open>ChainedOp.__str__\<close> writes: each operation is a prefix operator of its own,
  and the operators apply to the input that follows; when that input is a Join or a
  Cross, which is written without parentheses, they apply to its left input. The
  alias of a rename is formatted into the text, \<open>None\<close> included, and a rename
  with no attribute names is written \<open>\rename_{alias}\<close>, which is a list of one
  attribute name and no alias. The grammar's own nodes are read back in place.
\<close>

fun alias_text :: "string option \<Rightarrow> string" where
  "alias_text None = ''None''"
| "alias_text (Some relname) = relname"

fun wrap :: "chainop \<Rightarrow> ra \<Rightarrow> ra" where
  "wrap (OpSelect c) e = Select c e"
| "wrap (OpProject attrs) e = Project attrs e"
| "wrap (OpRename relname Star) e = Rename (Some (alias_text relname)) Star e"
| "wrap (OpRename relname NoAttrs) e = Rename None (AttrList [alias_text relname]) e"
| "wrap (OpRename relname (AttrList [])) e = Rename None (AttrList [alias_text relname]) e"
| "wrap (OpRename relname (AttrList (a # as))) e =
     Rename (Some (alias_text relname)) (AttrList (a # as)) e"

fun on_left :: "chainop list \<Rightarrow> ra \<Rightarrow> ra" where
  "on_left ops (Join l c r) = Join (fold wrap ops l) c r"
| "on_left ops (Cross l r) = Cross (fold wrap ops l) r"
| "on_left ops e = fold wrap ops e"

fun unfuse :: "ra \<Rightarrow> ra" where
  "unfuse (ChainedOp ops e) = on_left ops (unfuse e)"
| "unfuse (Select c e) = Select c (unfuse e)"
| "unfuse (Project attrs e) = Project attrs (unfuse e)"
| "unfuse (Rename relname attrnames e) = Rename relname attrnames (unfuse e)"
| "unfuse (Cross l r) = Cross (unfuse l) (unfuse r)"
| "unfuse (Join l c r) = Join (unfuse l) c (unfuse r)"
| "unfuse (RelRef r) = RelRef r"

definition read_back :: reader where
  "read_back q = Inr (unfuse q)"

text \<open>
  Two queries to compile: a Join of a selection and of a run of two operators, and a run
  of two operators over a Join.
\<close>

definition dept_id_10 :: valexpr where
  "dept_id_10 = BinaryOp (AttrRef (Attr (Some ''Dept'') ''id'')) EQ (Literal ''10'' RANumber)"

definition join_of_runs :: ra where
  "join_of_runs =
     Join (Select person_id_5 (RelRef ''Person'')) person_dept_cond
       (Project [Attr (Some ''Dept'') ''pid''] (Select dept_id_10 (RelRef ''Dept'')))"

definition run_over_join :: ra where
  "run_over_join =
     Project [Attr (Some ''Person'') ''name'']
       (Select person_id_5 (Join (RelRef ''Person'') person_dept_cond (RelRef ''Dept'')))"

section \<open>The unfused operators, stage by stage\<close>

text \<open>
  A Select task and a Rename task have a mapper only: the output of the stage is what the
  mapper emits, line after line. The stages of a vertical run execute inner to outer,
  each on the output of the one before.
\<close>

fun select_stage :: "valexpr \<Rightarrow> row list \<Rightarrow> error + row list" where
  "select_stage cond [] = Inr []"
| "select_stage cond (line # lines) =
     (case SelectTask_mapper cond line of
        Inl e \<Rightarrow> Inl e
      | Inr out \<Rightarrow>
          (case select_stage cond lines of
             Inl e \<Rightarrow> Inl e
           | Inr outs \<Rightarrow> Inr (out @ outs)))"

text \<open>
  A stage writes each emitted pair as a line of its output, the key as \<open>str\<close> gives
  it; that is the writer of the execution framework, and it matters only for the label
  \<open>None\<close> that \<open>RenameTask.mapper\<close> emits for an empty tuple without alias.
\<close>

fun written_label :: "string option \<Rightarrow> string" where
  "written_label None = ''None''"
| "written_label (Some l) = l"

fun rename_stage :: "string option \<Rightarrow> row list \<Rightarrow> error + row list" where
  "rename_stage relname [] = Inr []"
| "rename_stage relname (line # lines) =
     (case RenameTask_mapper relname line of
        Inl e \<Rightarrow> Inl e
      | Inr out \<Rightarrow>
          (case rename_stage relname lines of
             Inl e \<Rightarrow> Inl e
           | Inr outs \<Rightarrow> Inr ((written_label (fst out), snd out) # outs)))"

text \<open>
  The Project task has a reducer: its mapper emits the restricted tuple as key, the
  shuffle groups equal keys, and the reducer is called once for each distinct key.
\<close>

definition project_stage :: "attr list \<Rightarrow> row list \<Rightarrow> row list" where
  "project_stage attrs lines =
     map (\<lambda>g. ProjectTask_reducer (fst g))
       (group_by_key (map (\<lambda>line. (ProjectTask_mapper attrs line, ())) lines))"

fun run_stage :: "chainop \<Rightarrow> row list \<Rightarrow> error + row list" where
  "run_stage (OpSelect c) lines = select_stage c lines"
| "run_stage (OpProject attrs) lines = Inr (project_stage attrs lines)"
| "run_stage (OpRename relname attrnames) lines = rename_stage relname lines"

fun run_unfused :: "chainop list \<Rightarrow> row list \<Rightarrow> error + row list" where
  "run_unfused [] lines = Inr lines"
| "run_unfused (op # ops) lines =
     (case run_stage op lines of
        Inl e \<Rightarrow> Inl e
      | Inr out \<Rightarrow> run_unfused ops out)"

text \<open>
  Two conditions used on concrete rows below: \<open>Person.id = 1\<close> and \<open>id = 1\<close>.
\<close>

definition person_id_1 :: valexpr where
  "person_id_1 = BinaryOp (AttrRef (Attr (Some ''Person'') ''id'')) EQ (Literal ''1'' RANumber)"

definition id_1 :: valexpr where
  "id_1 = BinaryOp (AttrRef (Attr None ''id'')) EQ (Literal ''1'' RANumber)"

section \<open>Projection push-down on a store of nodes\<close>

text \<open>
  \<open>rule_push_down_projections\<close> assigns to \<open>expr.inputs\<close>, so what it does to the
  tree it is given shows only on a model with object identity: a store of nodes, a node
  holding the addresses of its inputs, a tree being what is read from an address.
\<close>

datatype hnode =
    HRelRef string
  | HSelect valexpr nat
  | HProject "attr list" nat
  | HRename "string option" attrspec nat
  | HCross nat nat
  | HJoin nat valexpr nat
  | HChainedOp "chainop list" nat

type_synonym heap = "hnode list"

fun inputs_of :: "hnode \<Rightarrow> nat list" where
  "inputs_of (HRelRef r) = []"
| "inputs_of (HSelect c i) = [i]"
| "inputs_of (HProject attrs i) = [i]"
| "inputs_of (HRename relname attrnames i) = [i]"
| "inputs_of (HCross i j) = [i, j]"
| "inputs_of (HJoin i c j) = [i, j]"
| "inputs_of (HChainedOp ops i) = [i]"

fun with_inputs :: "hnode \<Rightarrow> nat list \<Rightarrow> hnode" where
  "with_inputs (HSelect c i) [i'] = HSelect c i'"
| "with_inputs (HProject attrs i) [i'] = HProject attrs i'"
| "with_inputs (HRename relname attrnames i) [i'] = HRename relname attrnames i'"
| "with_inputs (HCross i j) [i', j'] = HCross i' j'"
| "with_inputs (HJoin i c j) [i', j'] = HJoin i' c j'"
| "with_inputs (HChainedOp ops i) [i'] = HChainedOp ops i'"
| "with_inputs n is = n"

fun read_tree :: "nat \<Rightarrow> heap \<Rightarrow> nat \<Rightarrow> ra option" where
  "read_tree 0 h a = None"
| "read_tree (Suc fuel) h a =
     (if a < length h then
        (case h ! a of
           HRelRef r \<Rightarrow> Some (RelRef r)
         | HSelect c i \<Rightarrow> map_option (Select c) (read_tree fuel h i)
         | HProject attrs i \<Rightarrow> map_option (Project attrs) (read_tree fuel h i)
         | HRename relname attrnames i \<Rightarrow>
             map_option (Rename relname attrnames) (read_tree fuel h i)
         | HChainedOp ops i \<Rightarrow> map_option (ChainedOp ops) (read_tree fuel h i)
         | HCross i j \<Rightarrow>
             (case read_tree fuel h i of
                None \<Rightarrow> None
              | Some l \<Rightarrow> map_option (Cross l) (read_tree fuel h j))
         | HJoin i c j \<Rightarrow>
             (case read_tree fuel h i of
                None \<Rightarrow> None
              | Some l \<Rightarrow> map_option (Join l c) (read_tree fuel h j)))
      else None)"

text \<open>
  In \<open>rule_push_down_projections\<close> the required attributes are a Python set, and the
  two lists of needed attributes follow its iteration order, which the language does not
  fix. The model iterates in the order of first insertion: the attributes of the join
  condition, then those of the projection.
\<close>

definition to_attr_ref :: "string \<Rightarrow> attr" where
  "to_attr_ref name =
     (if has_dot name then Attr (Some (before_dot name)) (after_dot name) else Attr None name)"

definition needed :: "string list \<Rightarrow> string set \<Rightarrow> attr list" where
  "needed required_attrs all = map to_attr_ref (filter (\<lambda>a. a \<in> all) required_attrs)"

definition narrow :: "heap \<Rightarrow> attr list \<Rightarrow> string set \<Rightarrow> nat \<Rightarrow> heap \<times> nat" where
  "narrow h needed_attrs all i =
     (if length needed_attrs < card all then (h @ [HProject needed_attrs i], length h)
      else (h, i))"

definition prune_join ::
  "dd \<Rightarrow> heap \<Rightarrow> attr list \<Rightarrow> nat \<Rightarrow> valexpr \<Rightarrow> nat \<Rightarrow> (error + heap \<times> nat) option" where
  "prune_join dd h attrs l cond r =
     (case read_tree (length h) h l of
        None \<Rightarrow> None
      | Some left \<Rightarrow>
          (case read_tree (length h) h r of
             None \<Rightarrow> None
           | Some right \<Rightarrow>
               (let required_attrs = unseen [] (condition_attr_list cond @ map str_attr attrs) in
                case extract_expr_attrs dd left of
                  Inl err \<Rightarrow> Some (Inl err)
                | Inr left_all \<Rightarrow>
                    (case extract_expr_attrs dd right of
                       Inl err \<Rightarrow> Some (Inl err)
                     | Inr right_all \<Rightarrow>
                         (let hl = narrow h (needed required_attrs left_all) left_all l;
                              hr = narrow (fst hl) (needed required_attrs right_all) right_all r;
                              h3 = fst hr @ [HJoin (snd hl) cond (snd hr)];
                              h4 = h3 @ [HProject attrs (length (fst hr))]
                          in Some (Inr (h4, length h3)))))))"

text \<open>
  The rule on the store. It first replaces the \<open>inputs\<close> of the node it is given by
  the results of the calls on them, which is an assignment to a field of that node; a
  new node is allocated only for a Project over a Join. The fuel bounds the depth of the
  recursion, which follows the addresses in the store; \<open>None\<close> is fuel exhausted or
  an address outside the store.
\<close>

fun rule_push_down_projections :: "nat \<Rightarrow> dd \<Rightarrow> heap \<Rightarrow> nat \<Rightarrow> (error + heap \<times> nat) option"
  and push_inputs :: "nat \<Rightarrow> dd \<Rightarrow> heap \<Rightarrow> nat list \<Rightarrow> (error + heap \<times> nat list) option" where
  "rule_push_down_projections 0 dd h expr = None"
| "rule_push_down_projections (Suc fuel) dd h expr =
     (if length h \<le> expr then None
      else
        (case push_inputs fuel dd h (inputs_of (h ! expr)) of
           None \<Rightarrow> None
         | Some (Inl err) \<Rightarrow> Some (Inl err)
         | Some (Inr (h1, new_inputs)) \<Rightarrow>
             (let h2 = h1[expr := with_inputs (h1 ! expr) new_inputs] in
              case h2 ! expr of
                HProject attrs child \<Rightarrow>
                  (if length h2 \<le> child then None
                   else
                     (case h2 ! child of
                        HJoin l cond r \<Rightarrow> prune_join dd h2 attrs l cond r
                      | _ \<Rightarrow> Some (Inr (h2, expr))))
              | _ \<Rightarrow> Some (Inr (h2, expr)))))"
| "push_inputs fuel dd h [] = Some (Inr (h, []))"
| "push_inputs fuel dd h (i # is) =
     (case rule_push_down_projections fuel dd h i of
        None \<Rightarrow> None
      | Some (Inl err) \<Rightarrow> Some (Inl err)
      | Some (Inr (h1, i')) \<Rightarrow>
          (case push_inputs fuel dd h1 is of
             None \<Rightarrow> None
           | Some (Inl err) \<Rightarrow> Some (Inl err)
           | Some (Inr (h2, is')) \<Rightarrow> Some (Inr (h2, i' # is'))))"

text \<open>
  A caller's tree in the store, at address 4:
  \<open>\select_{Person.name='Ana'} \project_{Person.name} (Person \join_{Person.id=Dept.pid} Dept)\<close>.
\<close>

definition name_ana :: valexpr where
  "name_ana = BinaryOp (AttrRef (Attr (Some ''Person'') ''name'')) EQ (Literal [CHR 0x27, CHR ''A'', CHR ''n'', CHR ''a'', CHR 0x27] RAString)"

definition caller_heap :: heap where
  "caller_heap =
     [HRelRef ''Person'', HRelRef ''Dept'', HJoin 0 person_dept_cond 1,
      HProject [Attr (Some ''Person'') ''name''] 2, HSelect name_ana 3]"

section \<open>Attribute resolution in the words of the specification\<close>

text \<open>
  The precedence as the specification words it: the value at the exact name; else the
  value of the unique key whose suffix matches; else no value.
\<close>

definition resolve_spec :: "attr \<Rightarrow> tuple \<Rightarrow> val" where
  "resolve_spec x tup =
     (case map_of tup (str_attr x) of
        Some v \<Rightarrow> v
      | None \<Rightarrow>
          (case filter (suffix_match (last_part (str_attr x))) tup of
             [kv] \<Rightarrow> snd kv
           | _ \<Rightarrow> VNone))"

section \<open>Evaluation of concrete inputs\<close>

lemmas eval_defs =
  lookup_def suffix_match_def endswith_def last_part_def has_dot_def before_dot_def
  after_dot_def is_digits_def int_of_digits_def quoted_def py_eq_def

section \<open>The join on the scenario of the specification\<close>

text \<open>
  C1: the distributed join is to produce exactly the merged pairs of a left and a right
  tuple on which the condition holds. On the scenario of the specification it does not:
  the mapper keys a \<open>Dept\<close> row by \<open>lookup\<close> of \<open>Person.id\<close>, which falls back to
  the suffix \<open>id\<close> and finds \<open>Dept.id\<close>, so the \<open>Dept\<close> rows are keyed 10 and 20, the
  \<open>Person\<close> rows 1 and 2, no group holds both sides, and the output is empty, while the
  reference result has the two rows pairing \<open>id = 1\<close> with \<open>pid = 1\<close> and \<open>id = 2\<close>
  with \<open>pid = 2\<close>.
\<close>

theorem join_scenario_loses_rows:
  "concat (map (JoinTask_mapper person_dept_cond)
       [(''Person'', ana), (''Person'', bob), (''Dept'', dept10), (''Dept'', dept20)])
     = [(''1'', (''Person'', ana)), (''2'', (''Person'', bob)),
        (''10'', (''Dept'', dept10)), (''20'', (''Dept'', dept20))]
   \<and> run_join (RelRef ''Person'') person_dept_cond (RelRef ''Dept'')
       [(''Person'', ana), (''Person'', bob), (''Dept'', dept10), (''Dept'', dept20)] = Inr []
   \<and> reference_join person_dept_cond [ana, bob] [dept10, dept20]
     = {ana @ dept10, bob @ dept20}"
  by code_simp

section \<open>The placeholder of the chained reducer\<close>

lemma group_by_key_keys: "fst ` set (group_by_key xs) \<subseteq> fst ` set xs"
proof (induction xs rule: group_by_key.induct)
  case 1
  then show ?case by simp
next
  case (2 kv kvs)
  have "fst ` set (filter (\<lambda>p. fst p \<noteq> fst kv) kvs) \<subseteq> fst ` set kvs"
    by auto
  with 2 show ?case by auto
qed

lemma chained_reduce_only_touch:
  assumes "\<forall>kv\<in>set emitted. fst kv = ''__touch__''"
  shows "chained_reduce_phase emitted = []"
proof -
  have "\<forall>g\<in>set (group_by_key emitted). fst g = ''__touch__''"
    using group_by_key_keys [of emitted] assms by auto
  then show ?thesis
    by (simp add: chained_reduce_phase_def ChainedTask_reducer_def)
qed

text \<open>
  C3: when the map phase of a ChainedOp task produced no surviving record, the reduce
  phase is to emit exactly one placeholder record. In the code the only pair such a map
  phase emits is the touch pair, the reducer returns at once for the touch key, and for
  any other key its group is never empty: whenever every emitted key is the touch key,
  the output of the task is empty, with no placeholder in it.
\<close>

theorem chained_no_placeholder:
  assumes "chained_map_phase operations False lines = Inr emitted"
    and "\<forall>kv\<in>set emitted. fst kv = ''__touch__''"
  shows "run_chained operations lines = Inr []"
  using assms by (simp add: run_chained_def chained_reduce_only_touch)

theorem chained_no_placeholder_witness:
  "chained_map_phase
       [OpSelect (BinaryOp (AttrRef (Attr None ''id'')) EQ (Literal ''1'' RANumber))]
       False [(''Person'', [(''Person.id'', VInt 2)])] = Inr [(''__touch__'', None)]
   \<and> run_chained
       [OpSelect (BinaryOp (AttrRef (Attr None ''id'')) EQ (Literal ''1'' RANumber))]
       [(''Person'', [(''Person.id'', VInt 2)])] = Inr []"
proof -
  have m: "chained_map_phase
       [OpSelect (BinaryOp (AttrRef (Attr None ''id'')) EQ (Literal ''1'' RANumber))]
       False [(''Person'', [(''Person.id'', VInt 2)])] = Inr [(''__touch__'', None)]"
    by (simp add: ChainedTask_mapper_def eval_defs)
  have t: "\<forall>kv\<in>set [(''__touch__'', None :: tuple option)]. fst kv = ''__touch__''"
    by simp
  show ?thesis
    using m chained_no_placeholder [OF m t] by simp
qed

section \<open>Rename without an alias\<close>

text \<open>
  C7: with the alias absent, Rename is to pass the tuple and the label through
  unchanged. The rename branch of the chained mapper does; \<open>RenameTask.mapper\<close> raises
  \<open>TypeError\<close> on the same row, from \<open>None + "."\<close>.
\<close>

theorem rename_without_alias_raises:
  "RenameTask_mapper None (''Person'', [(''Person.id'', VInt 1)]) = Inl TypeError
   \<and> chain_steps [OpRename None (AttrList [''pid''])] (''Person'', [(''Person.id'', VInt 1)])
     = Inr (Some (''Person'', [(''Person.id'', VInt 1)]))"
  by simp

section \<open>Attribute resolution\<close>

lemma find_filter_hd:
  "find P xs = (case filter P xs of [] \<Rightarrow> None | x # ys \<Rightarrow> Some x)"
  by (induction xs) auto

text \<open>
  C9, as amended: attribute resolution gives the value at the exact name when the tuple
  has that key; otherwise the value of the first key, in the order of the tuple, that is
  the unqualified suffix or ends with a dot and the suffix; otherwise no value. It agrees
  with the precedence of the specification whenever at most one key matches the suffix.
  The Project mapper picks the key of a requested attribute in the same way, matching
  the suffix against the column name of the attribute.
\<close>

theorem lookup_precedence:
  "lookup x tup =
     (case map_of tup (str_attr x) of
        Some v \<Rightarrow> v
      | None \<Rightarrow>
          (case filter (suffix_match (last_part (str_attr x))) tup of
             [] \<Rightarrow> VNone
           | kv # kvs \<Rightarrow> snd kv))
   \<and> (length (filter (suffix_match (last_part (str_attr x))) tup) \<le> 1
        \<longrightarrow> lookup x tup = resolve_spec x tup)
   \<and> project_attr tup x out =
     (case map_of tup (str_attr x) of
        Some v \<Rightarrow> AList.update (str_attr x) v out
      | None \<Rightarrow>
          (case filter (suffix_match (attr_name x)) tup of
             [] \<Rightarrow> out
           | kv # kvs \<Rightarrow> AList.update (fst kv) (snd kv) out))"
  by (auto simp: lookup_def resolve_spec_def project_attr_def find_filter_hd
      split: option.splits list.splits)

theorem lookup_precedence_witness:
  "lookup (Attr (Some ''Person'') ''name'') [(''id'', VInt 1), (''P.name'', VStr ''Ana'')]
     = VStr ''Ana''
   \<and> resolve_spec (Attr (Some ''Person'') ''name'') [(''id'', VInt 1), (''P.name'', VStr ''Ana'')]
     = VStr ''Ana''"
  using lookup_precedence
    [of "Attr (Some ''Person'') ''name''" "[(''id'', VInt 1), (''P.name'', VStr ''Ana'')]" "[]"]
  by (auto simp add: suffix_match_def endswith_def last_part_def)

theorem lookup_first_match_counterexample:
  "lookup (Attr None ''id'') [(''A.id'', VInt 1), (''B.id'', VInt 2)]
     \<noteq> resolve_spec (Attr None ''id'') [(''A.id'', VInt 1), (''B.id'', VInt 2)]"
  by (simp add: resolve_spec_def eval_defs)

section \<open>Classification in the join reducer\<close>

lemma classify_keeps:
  "set (fst acc) \<subseteq> set (fst (classify left_r right_r vs acc)) \<and>
   set (snd acc) \<subseteq> set (snd (classify left_r right_r vs acc))"
proof (induction vs arbitrary: acc)
  case Nil
  then show ?case by simp
next
  case (Cons v vs)
  show ?case
    using Cons.IH [of "(fst acc @ [snd v], snd acc)"]
      Cons.IH [of "(fst acc, snd acc @ [snd v])"]
      Cons.IH [of "(fst acc @ [snd v], snd acc @ [snd v])"]
      Cons.IH [of acc]
    by (auto simp: Let_def)
qed

lemma classify_both:
  assumes "Some rel \<notin> set left_r" "Some rel \<notin> set right_r"
    and "meets (prefixes_of tup) left_r" "meets (prefixes_of tup) right_r"
    and "(rel, tup) \<in> set vs"
  shows "tup \<in> set (fst (classify left_r right_r vs acc)) \<and>
         tup \<in> set (snd (classify left_r right_r vs acc))"
  using assms(5)
proof (induction vs arbitrary: acc)
  case Nil
  then show ?case by simp
next
  case (Cons v vs)
  show ?case
  proof (cases "v = (rel, tup)")
    case True
    have "set (fst (fst acc @ [tup], snd acc @ [tup]))
            \<subseteq> set (fst (classify left_r right_r vs (fst acc @ [tup], snd acc @ [tup])))
        \<and> set (snd (fst acc @ [tup], snd acc @ [tup]))
            \<subseteq> set (snd (classify left_r right_r vs (fst acc @ [tup], snd acc @ [tup])))"
      by (rule classify_keeps)
    with True assms(1-4) show ?thesis by (simp add: Let_def)
  next
    case False
    with Cons.prems have "(rel, tup) \<in> set vs" by simp
    then show ?thesis using Cons.IH by (simp add: Let_def)
  qed
qed

text \<open>
  C10: in the join reducer, a grouped record whose label is in neither branch's set of
  relation names, and whose key prefixes meet both sets, is put on the left list and on
  the right list; the tuple is then paired with itself in the cross-multiplication of
  its key group.
\<close>

theorem classify_ambiguous_on_both_sides:
  assumes "Some rel \<notin> set left_r" and "Some rel \<notin> set right_r"
    and "meets (prefixes_of tup) left_r" and "meets (prefixes_of tup) right_r"
    and "(rel, tup) \<in> set vs"
  shows "tup \<in> set (fst (classify left_r right_r vs ([], [])))
       \<and> tup \<in> set (snd (classify left_r right_r vs ([], [])))
       \<and> merge_dicts tup tup
           \<in> set (candidates (fst (classify left_r right_r vs ([], [])))
                              (snd (classify left_r right_r vs ([], []))))"
proof -
  have both: "tup \<in> set (fst (classify left_r right_r vs ([], [])))
      \<and> tup \<in> set (snd (classify left_r right_r vs ([], [])))"
    using assms by (rule classify_both)
  then show ?thesis
    by (auto simp: candidates_def)
qed

theorem classify_ambiguous_on_both_sides_witness:
  "[(''A.x'', VInt 1), (''B.y'', VInt 1)]
     \<in> set (fst (classify [Some ''A''] [Some ''B'']
          [(''J'', [(''A.x'', VInt 1), (''B.y'', VInt 1)])] ([], [])))
   \<and> [(''A.x'', VInt 1), (''B.y'', VInt 1)]
     \<in> set (snd (classify [Some ''A''] [Some ''B'']
          [(''J'', [(''A.x'', VInt 1), (''B.y'', VInt 1)])] ([], [])))"
  using classify_ambiguous_on_both_sides
    [of "''J''" "[Some ''A'']" "[Some ''B'']" "[(''A.x'', VInt 1), (''B.y'', VInt 1)]"
        "[(''J'', [(''A.x'', VInt 1), (''B.y'', VInt 1)])]"]
  by (simp add: meets_def prefixes_of_def has_dot_def before_dot_def)

section \<open>Breaking up and merging selections\<close>

lemma conjuncts_not_and: "c \<in> set (conjuncts x) \<Longrightarrow> \<not> is_and c"
  by (induction x rule: conjuncts.induct) auto

lemma conjuncts_id: "\<not> is_and c \<Longrightarrow> conjuncts c = [c]"
  by (induction c rule: conjuncts.induct) auto

lemma is_and_conjuncts: "is_and c \<Longrightarrow> conjuncts c = conjuncts (and_left c) @ conjuncts (and_right c)"
  by (induction c rule: is_and.induct) auto

lemma selects_append: "selects (xs @ ys) b = selects xs (selects ys b)"
  by (induction xs) auto

lemma flat_selects: "\<forall>c\<in>set cs. \<not> is_and c \<Longrightarrow> flat (selects cs b) = selects cs (flat b)"
  by (induction cs) (auto simp: conjuncts_id)

lemma flat_idem: "flat (flat e) = flat e"
  by (induction e rule: flat.induct) (auto simp: flat_selects conjuncts_not_and)

lemma break_up_flat: "rule_break_up_selections x = flat x"
proof (induction x rule: rule_break_up_selections.induct)
  case (1 cond e)
  show ?case
  proof (cases "is_and cond")
    case True
    have "rule_break_up_selections (Select cond e)
        = rule_break_up_selections (Select (and_left cond) (Select (and_right cond) (rule_break_up_selections e)))"
      using True by (simp add: rule_break_up_selections.simps Let_def)
    also have "\<dots> = flat (Select (and_left cond) (Select (and_right cond) (rule_break_up_selections e)))"
      using 1(2) [OF refl True] .
    also have "\<dots> = flat (Select cond e)"
      using True 1(1) by (simp add: is_and_conjuncts selects_append flat_idem)
    finally show ?thesis .
  next
    case False
    then show ?thesis
      using 1(1) by (simp add: rule_break_up_selections.simps Let_def conjuncts_id)
  qed
qed (simp_all add: rule_break_up_selections.simps)


lemma flat_not_select: "\<not> is_select e \<Longrightarrow> \<not> is_select (flat e)"
  by (cases e) auto

lemma merge_not_select: "\<not> is_select e \<Longrightarrow> \<not> is_select (rule_merge_selections e)"
  by (cases e) auto

lemma select_run_not_select: "\<not> is_select (snd (select_run e))"
  by (induction e rule: select_run.induct) auto

lemma select_run_selects: "\<not> is_select b \<Longrightarrow> select_run (selects cs b) = (cs, b)"
proof (induction cs)
  case Nil
  then show ?case by (cases b) auto
next
  case (Cons c cs)
  then show ?case by simp
qed

lemma and_chain_single: "and_chain [c] = c"
  by (simp add: and_chain_def)

lemma merge_selects:
  assumes "cs \<noteq> []" and "\<not> is_select b"
  shows "rule_merge_selections (selects cs b) = Select (and_chain cs) (rule_merge_selections b)"
proof -
  obtain c cs' where cs: "cs = c # cs'"
    using assms(1) by (cases cs) auto
  have run: "select_run (Select c (selects cs' b)) = (c # cs', b)"
    using select_run_selects [OF assms(2), of "c # cs'"] by simp
  show ?thesis
  proof (cases "cs' = []")
    case True
    then show ?thesis
      using run cs by (simp add: rule_merge_selections.simps(1) and_chain_single)
  next
    case False
    then show ?thesis
      using run cs by (simp add: rule_merge_selections.simps(1) Let_def del: select_run.simps)
  qed
qed

lemma flat_run:
  "flat e = selects (concat (map conjuncts (fst (select_run e)))) (flat (snd (select_run e)))"
  by (induction e rule: select_run.induct) (auto simp: selects_append)

lemma conjuncts_nonempty: "conjuncts c \<noteq> []"
  by (induction c rule: conjuncts.induct) auto

lemma merge_break_up_run:
  "rule_merge_selections (rule_break_up_selections (Select c e))
     = Select (and_chain (concat (map conjuncts (c # fst (select_run e)))))
         (rule_merge_selections (rule_break_up_selections (snd (select_run e))))"
proof -
  have "rule_break_up_selections (Select c e)
      = selects (concat (map conjuncts (c # fst (select_run e)))) (flat (snd (select_run e)))"
    using flat_run [of "Select c e"] by (simp add: break_up_flat)
  moreover have "\<not> is_select (flat (snd (select_run e)))"
    by (simp add: flat_not_select select_run_not_select)
  moreover have "concat (map conjuncts (c # fst (select_run e))) \<noteq> []"
    by (simp add: conjuncts_nonempty)
  ultimately show ?thesis
    by (simp add: merge_selects break_up_flat)
qed

lemma and_chain_snoc: "cs \<noteq> [] \<Longrightarrow> and_chain (cs @ [c]) = BinaryOp (and_chain cs) AND c"
  by (cases cs) (auto simp: and_chain_def)

lemma apply_and_assoc:
  "(case apply_sym AND a b of Inl e \<Rightarrow> Inl e | Inr ab \<Rightarrow> apply_sym AND ab c)
     = (case apply_sym AND b c of Inl e \<Rightarrow> Inl e | Inr bc \<Rightarrow> apply_sym AND a bc)"
  by simp

lemma eval_and_chain_append:
  assumes "xs \<noteq> []" and "ys \<noteq> []"
  shows "eval_cond (and_chain (xs @ ys)) tup
       = eval_cond (BinaryOp (and_chain xs) AND (and_chain ys)) tup"
  using assms(2)
proof (induction ys rule: rev_nonempty_induct)
  case (single y)
  then show ?case using assms(1) by (simp add: and_chain_snoc and_chain_single)
next
  case (snoc y ys)
  have "and_chain (xs @ ys @ [y]) = BinaryOp (and_chain (xs @ ys)) AND y"
    using and_chain_snoc [of "xs @ ys" y] assms(1) by simp
  moreover have "and_chain (ys @ [y]) = BinaryOp (and_chain ys) AND y"
    using and_chain_snoc [of ys y] snoc(1) by simp
  ultimately show ?case
    using snoc(2) by (auto split: sum.splits)
qed

lemma eval_conjuncts: "eval_cond (and_chain (conjuncts c)) tup = eval_cond c tup"
proof (induction c rule: conjuncts.induct)
  case (1 l r)
  then show ?case
    by (simp add: eval_and_chain_append conjuncts_nonempty split: sum.splits)
qed (simp_all add: and_chain_single)

lemma conjuncts_and_chain:
  assumes "cs \<noteq> []" and "\<forall>c\<in>set cs. \<not> is_and c"
  shows "conjuncts (and_chain cs) = cs"
  using assms
proof (induction cs rule: rev_nonempty_induct)
  case (single c)
  then show ?case by (simp add: and_chain_single conjuncts_id)
next
  case (snoc c cs)
  then show ?case by (simp add: and_chain_snoc conjuncts_id)
qed

lemma no_and_selects:
  "no_and_select (selects cs b) = ((\<forall>c\<in>set cs. \<not> is_and c) \<and> no_and_select b)"
  by (induction cs) auto

lemma break_up_no_and: "chain_free e \<Longrightarrow> no_and_select (rule_break_up_selections e)"
  unfolding break_up_flat
  by (induction e rule: flat.induct) (auto simp: no_and_selects conjuncts_not_and)

lemma eval_merged_run:
  assumes "cs \<noteq> []"
  shows "eval_cond (and_chain (concat (map conjuncts cs))) tup = eval_cond (and_chain cs) tup"
  using assms
proof (induction cs rule: rev_nonempty_induct)
  case (single c)
  then show ?case by (simp add: eval_conjuncts and_chain_single)
next
  case (snoc c cs)
  have ne: "concat (map conjuncts cs) \<noteq> []"
    using snoc(1) conjuncts_nonempty by (cases cs) auto
  have "eval_cond (and_chain (concat (map conjuncts (cs @ [c])))) tup
      = eval_cond (BinaryOp (and_chain (concat (map conjuncts cs))) AND (and_chain (conjuncts c))) tup"
    using eval_and_chain_append [OF ne conjuncts_nonempty, of c tup] by simp
  also have "\<dots> = eval_cond (BinaryOp (and_chain cs) AND c) tup"
    using snoc(2) by (simp add: eval_conjuncts split: sum.splits)
  finally show ?case
    using snoc(1) by (simp add: and_chain_snoc)
qed

text \<open>
  C4: for a tree with a selection at its top, breaking up and then merging gives one
  selection over a base that is no selection; its condition is the left-nested AND-chain
  of the top-level conjuncts, in their order, of the conditions of the vertical run of
  selections at the top of the tree (of the top condition alone when the input of the
  top selection is no selection); the chain has these conjuncts in this order and
  evaluates, on every tuple, to what the AND of the run's conditions evaluates to, value
  and error alike. Breaking up leaves no selection with a top-level AND in a tree
  without ChainedOp nodes, and merging turns a run of selections over a base that is no
  selection into one selection of the conditions chained outer to inner.
\<close>

theorem merge_after_break_up:
  "rule_merge_selections (rule_break_up_selections (Select c e))
     = Select (and_chain (concat (map conjuncts (c # fst (select_run e)))))
         (rule_merge_selections (rule_break_up_selections (snd (select_run e))))
   \<and> \<not> is_select (rule_merge_selections (rule_break_up_selections (snd (select_run e))))
   \<and> conjuncts (and_chain (concat (map conjuncts (c # fst (select_run e)))))
       = concat (map conjuncts (c # fst (select_run e)))
   \<and> eval_cond (and_chain (concat (map conjuncts (c # fst (select_run e))))) tup
       = eval_cond (and_chain (c # fst (select_run e))) tup
   \<and> (\<not> is_select e \<longrightarrow>
        rule_merge_selections (rule_break_up_selections (Select c e))
          = Select (and_chain (conjuncts c)) (rule_merge_selections (rule_break_up_selections e))
        \<and> eval_cond (and_chain (conjuncts c)) tup = eval_cond c tup)
   \<and> (chain_free e \<longrightarrow> no_and_select (rule_break_up_selections (Select c e)))
   \<and> (cs \<noteq> [] \<and> \<not> is_select b \<longrightarrow>
        rule_merge_selections (selects cs b) = Select (and_chain cs) (rule_merge_selections b))"
proof -
  have not_and: "\<forall>x\<in>set (concat (map conjuncts (c # fst (select_run e)))). \<not> is_and x"
    by (auto simp: conjuncts_not_and)
  have ne: "concat (map conjuncts (c # fst (select_run e))) \<noteq> []"
    by (simp add: conjuncts_nonempty)
  have plain: "fst (select_run e) = [] \<and> snd (select_run e) = e" if "\<not> is_select e"
    using that by (cases e) auto
  show ?thesis
    using merge_break_up_run [of c e] conjuncts_and_chain [OF ne not_and]
      eval_merged_run [of "c # fst (select_run e)" tup] break_up_no_and [of "Select c e"]
      merge_selects [of cs b] plain
    by (simp add: merge_not_select break_up_flat flat_not_select select_run_not_select
        eval_conjuncts)
qed

theorem merge_after_break_up_witness:
  "rule_merge_selections (rule_break_up_selections
       (Select (BinaryOp (AttrRef (Attr None ''a''))
                  AND (BinaryOp (AttrRef (Attr None ''b'')) AND (AttrRef (Attr None ''c''))))
          (RelRef ''R'')))
     = Select (BinaryOp (BinaryOp (AttrRef (Attr None ''a'')) AND (AttrRef (Attr None ''b'')))
                  AND (AttrRef (Attr None ''c'')))
         (RelRef ''R'')
   \<and> no_and_select (rule_break_up_selections
       (Select (BinaryOp (AttrRef (Attr None ''a''))
                  AND (BinaryOp (AttrRef (Attr None ''b'')) AND (AttrRef (Attr None ''c''))))
          (RelRef ''R'')))"
  using merge_after_break_up
    [of "BinaryOp (AttrRef (Attr None ''a''))
           AND (BinaryOp (AttrRef (Attr None ''b'')) AND (AttrRef (Attr None ''c'')))"
        "RelRef ''R''" "[]" "[AttrRef (Attr None ''a'')]" "RelRef ''R''"]
  by (simp add: and_chain_def rule_break_up_selections.simps)

section \<open>Pushing selections down\<close>

lemma push_select_cases:
  assumes eq: "rule_push_down_selections dd (Select cond e) = Inr y"
  obtains
    (stay) child where "rule_push_down_selections dd e = Inr child" "y = Select cond child"
  | (left) left right la ra p where
      "rule_push_down_selections dd e = Inr (Cross left right)"
      "extract_expr_attrs dd left = Inr la" "extract_expr_attrs dd right = Inr ra"
      "\<not> is_join_condition cond la ra" "extract_condition_attrs cond \<subseteq> la"
      "rule_push_down_selections dd (Select cond left) = Inr p" "y = Cross p right"
  | (right) left right la ra p where
      "rule_push_down_selections dd e = Inr (Cross left right)"
      "extract_expr_attrs dd left = Inr la" "extract_expr_attrs dd right = Inr ra"
      "\<not> is_join_condition cond la ra" "\<not> extract_condition_attrs cond \<subseteq> la"
      "extract_condition_attrs cond \<subseteq> ra"
      "rule_push_down_selections dd (Select cond right) = Inr p" "y = Cross left p"
  | (left2) ccond left right la ra p where
      "rule_push_down_selections dd e = Inr (Select ccond (Cross left right))"
      "extract_expr_attrs dd left = Inr la" "extract_expr_attrs dd right = Inr ra"
      "\<not> is_join_condition cond la ra \<and> is_join_condition ccond la ra"
      "extract_condition_attrs cond \<subseteq> la"
      "rule_push_down_selections dd (Select cond left) = Inr p"
      "y = Select ccond (Cross p right)"
  | (right2) ccond left right la ra p where
      "rule_push_down_selections dd e = Inr (Select ccond (Cross left right))"
      "extract_expr_attrs dd left = Inr la" "extract_expr_attrs dd right = Inr ra"
      "\<not> is_join_condition cond la ra \<and> is_join_condition ccond la ra"
      "\<not> extract_condition_attrs cond \<subseteq> la" "extract_condition_attrs cond \<subseteq> ra"
      "rule_push_down_selections dd (Select cond right) = Inr p"
      "y = Select ccond (Cross left p)"
proof -
  note unfold = rule_push_down_selections.simps(1)
  from eq obtain child where ch: "rule_push_down_selections dd e = Inr child"
    by (auto simp: unfold split: sum.splits)
  show thesis
  proof (cases child)
    case (Cross l r)
    from eq ch Cross obtain la ra
      where la: "extract_expr_attrs dd l = Inr la" and ra: "extract_expr_attrs dd r = Inr ra"
      by (auto simp: unfold split: sum.splits)
    show ?thesis
    proof (cases "is_join_condition cond la ra")
      case True
      with eq ch Cross la ra have "y = Select cond child" by (auto simp: unfold)
      with ch show ?thesis by (rule stay)
    next
      case nj: False
      show ?thesis
      proof (cases "extract_condition_attrs cond \<subseteq> la")
        case True
        with eq ch Cross la ra nj obtain p
          where "rule_push_down_selections dd (Select cond l) = Inr p" "y = Cross p r"
          by (auto simp: unfold split: sum.splits)
        with ch Cross la ra nj True show ?thesis by (auto intro: left)
      next
        case nl: False
        show ?thesis
        proof (cases "extract_condition_attrs cond \<subseteq> ra")
          case True
          with eq ch Cross la ra nj nl obtain p
            where "rule_push_down_selections dd (Select cond r) = Inr p" "y = Cross l p"
            by (auto simp: unfold split: sum.splits)
          with ch Cross la ra nj nl True show ?thesis by (auto intro: right)
        next
          case False
          with eq ch Cross la ra nj nl have "y = Select cond child" by (auto simp: unfold)
          with ch show ?thesis by (rule stay)
        qed
      qed
    qed
  next
    case (Select ccond cross)
    show ?thesis
    proof (cases cross)
      case (Cross l r)
      from eq ch Select Cross obtain la ra
        where la: "extract_expr_attrs dd l = Inr la" and ra: "extract_expr_attrs dd r = Inr ra"
        by (auto simp: unfold split: sum.splits)
      show ?thesis
      proof (cases "\<not> is_join_condition cond la ra \<and> is_join_condition ccond la ra")
        case False
        with eq ch Select Cross la ra have "y = Select cond child" by (auto simp: unfold)
        with ch show ?thesis by (rule stay)
      next
        case nj: True
        show ?thesis
        proof (cases "extract_condition_attrs cond \<subseteq> la")
          case True
          with eq ch Select Cross la ra nj obtain p
            where "rule_push_down_selections dd (Select cond l) = Inr p"
              "y = Select ccond (Cross p r)"
            by (auto simp: unfold split: sum.splits)
          with ch Select Cross la ra nj True show ?thesis by (auto intro: left2)
        next
          case nl: False
          show ?thesis
          proof (cases "extract_condition_attrs cond \<subseteq> ra")
            case True
            with eq ch Select Cross la ra nj nl obtain p
              where "rule_push_down_selections dd (Select cond r) = Inr p"
                "y = Select ccond (Cross l p)"
              by (auto simp: unfold split: sum.splits)
            with ch Select Cross la ra nj nl True show ?thesis by (auto intro: right2)
          next
            case False
            with eq ch Select Cross la ra nj nl have "y = Select cond child"
              by (auto simp: unfold)
            with ch show ?thesis by (rule stay)
          qed
        qed
      qed
    next
      case (RelRef x)
      with eq ch Select have "y = Select cond child" by (auto simp: unfold)
      with ch show ?thesis by (rule stay)
    next
      case (Select x y')
      with eq ch \<open>child = Select ccond cross\<close> have "y = Select cond child" by (auto simp: unfold)
      with ch show ?thesis by (rule stay)
    next
      case (Project x y')
      with eq ch Select have "y = Select cond child" by (auto simp: unfold)
      with ch show ?thesis by (rule stay)
    next
      case (Rename x y' z)
      with eq ch Select have "y = Select cond child" by (auto simp: unfold)
      with ch show ?thesis by (rule stay)
    next
      case (Join x y' z)
      with eq ch Select have "y = Select cond child" by (auto simp: unfold)
      with ch show ?thesis by (rule stay)
    next
      case (ChainedOp x y')
      with eq ch Select have "y = Select cond child" by (auto simp: unfold)
      with ch show ?thesis by (rule stay)
    qed
  next
    case (RelRef x)
    with eq ch have "y = Select cond child" by (auto simp: unfold)
    with ch show ?thesis by (rule stay)
  next
    case (Project x y')
    with eq ch have "y = Select cond child" by (auto simp: unfold)
    with ch show ?thesis by (rule stay)
  next
    case (Rename x y' z)
    with eq ch have "y = Select cond child" by (auto simp: unfold)
    with ch show ?thesis by (rule stay)
  next
    case (Join x y' z)
    with eq ch have "y = Select cond child" by (auto simp: unfold)
    with ch show ?thesis by (rule stay)
  next
    case (ChainedOp x y')
    with eq ch have "y = Select cond child" by (auto simp: unfold)
    with ch show ?thesis by (rule stay)
  qed
qed

lemma push_down_attrs:
  "rule_push_down_selections dd x = Inr y \<Longrightarrow> extract_expr_attrs dd y = extract_expr_attrs dd x"
proof (induction dd x arbitrary: y rule: rule_push_down_selections.induct)
  case (1 dd cond e)
  note IH = "1.IH"
  from "1.prems" show ?case
  proof (cases rule: push_select_cases)
    case (stay child)
    then show ?thesis using IH(1) by simp
  next
    case (left left right la ra p)
    from IH(4) [OF left(1) refl left(2,3,4,5,6)] IH(1) [OF left(1)] left(7)
    show ?thesis by (auto split: sum.splits)
  next
    case (right left right la ra p)
    from IH(5) [OF right(1) refl right(2,3,4,5,6,7)] IH(1) [OF right(1)] right(8)
    show ?thesis by (auto split: sum.splits)
  next
    case (left2 ccond left right la ra p)
    from IH(2) [OF left2(1) refl refl left2(2,3,4,5,6)] IH(1) [OF left2(1)] left2(7)
    show ?thesis by (auto split: sum.splits)
  next
    case (right2 ccond left right la ra p)
    from IH(3) [OF right2(1) refl refl right2(2,3,4,5,6,7)] IH(1) [OF right2(1)] right2(8)
    show ?thesis by (auto split: sum.splits)
  qed
qed (auto split: sum.splits option.splits if_splits)


text \<open>
  When the attribute sets of both inputs of the Cross can be derived, the rule decides
  as follows, with \<open>L'\<close> and \<open>R'\<close> the push-down of the two inputs: a join
  condition stays directly above the Cross; any other condition goes into the left
  input when the left attribute set holds all attributes of the condition, else into
  the right input when the right set does, and stays above the Cross when neither does.
\<close>

lemma push_down_when_attrs_derive:
  assumes L: "rule_push_down_selections dd L = Inr L'"
    and R: "rule_push_down_selections dd R = Inr R'"
    and la: "extract_expr_attrs dd L = Inr la"
    and ra: "extract_expr_attrs dd R = Inr ra"
  shows "rule_push_down_selections dd (Select cond (Cross L R)) =
      (if is_join_condition cond la ra then Inr (Select cond (Cross L' R'))
       else if extract_condition_attrs cond \<subseteq> la then
         (case rule_push_down_selections dd (Select cond L') of
            Inl err \<Rightarrow> Inl err
          | Inr pushed \<Rightarrow> Inr (Cross pushed R'))
       else if extract_condition_attrs cond \<subseteq> ra then
         (case rule_push_down_selections dd (Select cond R') of
            Inl err \<Rightarrow> Inl err
          | Inr pushed \<Rightarrow> Inr (Cross L' pushed))
       else Inr (Select cond (Cross L' R')))"
proof -
  have la': "extract_expr_attrs dd L' = Inr la"
    using push_down_attrs [OF L] la by simp
  have ra': "extract_expr_attrs dd R' = Inr ra"
    using push_down_attrs [OF R] ra by simp
  show ?thesis
    using L R la' ra' by (simp add: rule_push_down_selections.simps(1))
qed

text \<open>
  C5: not every selection over a Cross is left in place or pushed into an input. The
  attribute set of a Rename is built with \<open>expr.relname + "." + base\<close>, and a Rename
  without an alias has \<open>relname = None\<close>. With the schema of the scenario, the
  selection \<open>Person.id = 5\<close> over the Cross of \<open>\rename_{pid, pname} Person\<close> and
  \<open>Dept\<close> raises \<open>TypeError\<close>, and so does a selection over the Cross with the
  Rename as right input, although both inputs are pushed down without an exception.
  Without the Rename the three cases of the rule are as stated: \<open>Person.id = 5\<close> over
  \<open>Person \<times> Dept\<close> ends on the \<open>Person\<close> input and \<open>Dept.id = 10\<close> on the
  \<open>Dept\<close> input, the Cross is kept and there is no Join; the join condition
  \<open>Person.id = Dept.pid\<close> stays directly above the Cross.
\<close>

theorem push_down_raises_over_rename_without_alias:
  "extract_expr_attrs scenario_dd (Rename None (AttrList [''pid'', ''pname'']) (RelRef ''Person''))
     = Inl TypeError
   \<and> rule_push_down_selections scenario_dd
         (Rename None (AttrList [''pid'', ''pname'']) (RelRef ''Person''))
       = Inr (Rename None (AttrList [''pid'', ''pname'']) (RelRef ''Person''))
   \<and> rule_push_down_selections scenario_dd (RelRef ''Dept'') = Inr (RelRef ''Dept'')
   \<and> rule_push_down_selections scenario_dd
         (Select person_id_5
            (Cross (Rename None (AttrList [''pid'', ''pname'']) (RelRef ''Person'')) (RelRef ''Dept'')))
       = Inl TypeError
   \<and> rule_push_down_selections scenario_dd
         (Select dept_id_10
            (Cross (RelRef ''Dept'') (Rename None (AttrList [''pid'', ''pname'']) (RelRef ''Person''))))
       = Inl TypeError
   \<and> rule_push_down_selections scenario_dd
         (Select person_id_5 (Cross (RelRef ''Person'') (RelRef ''Dept'')))
       = Inr (Cross (Select person_id_5 (RelRef ''Person'')) (RelRef ''Dept''))
   \<and> rule_push_down_selections scenario_dd
         (Select dept_id_10 (Cross (RelRef ''Person'') (RelRef ''Dept'')))
       = Inr (Cross (RelRef ''Person'') (Select dept_id_10 (RelRef ''Dept'')))
   \<and> rule_push_down_selections scenario_dd
         (Select person_dept_cond (Cross (RelRef ''Person'') (RelRef ''Dept'')))
       = Inr (Select person_dept_cond (Cross (RelRef ''Person'') (RelRef ''Dept'')))"
  by code_simp

section \<open>Stage counts and stage indices\<close>

lemma unfolded_pos: "0 < unfolded x"
  by (induction x) auto

lemma unfolded_run: "unfolded x = length (fst (collect_chain x)) + unfolded (snd (collect_chain x))"
  by (induction x) auto

lemma unfolded_fold: "unfolded (try_fold_chain x) = unfolded x"
proof (induction x)
  case (Select c e)
  show ?case using Select unfolded_run [of "Select c e"] by (simp add: Let_def)
next
  case (Project attrs e)
  show ?case using Project unfolded_run [of "Project attrs e"] by (simp add: Let_def)
next
  case (Rename relname attrnames e)
  show ?case using Rename unfolded_run [of "Rename relname attrnames e"] by (simp add: Let_def)
qed auto

lemma run_chain_free: "chain_free x \<Longrightarrow> chain_free (snd (collect_chain x))"
  by (induction x) auto

lemma fold_input_smaller:
  "chain_free x \<Longrightarrow> first_input (try_fold_chain x) = Some e \<Longrightarrow> unfolded e < unfolded x"
proof (cases x)
  case (Select c e')
  assume "chain_free x" "first_input (try_fold_chain x) = Some e"
  with Select show ?thesis
    using unfolded_run [of x] unfolded_fold [of e']
    by (auto simp: Let_def split: if_splits)
next
  case (Project attrs e')
  assume "chain_free x" "first_input (try_fold_chain x) = Some e"
  with Project show ?thesis
    using unfolded_run [of x] unfolded_fold [of e']
    by (auto simp: Let_def split: if_splits)
next
  case (Rename relname attrnames e')
  assume "chain_free x" "first_input (try_fold_chain x) = Some e"
  with Rename show ?thesis
    using unfolded_run [of x] unfolded_fold [of e']
    by (auto simp: Let_def split: if_splits)
next
  case (Join l c r)
  assume "chain_free x" "first_input (try_fold_chain x) = Some e"
  with Join show ?thesis
    using unfolded_fold [of l] by auto
qed auto

lemma chain_free_count: "chain_free x \<Longrightarrow> count_steps x = Inr n \<Longrightarrow> n = unfolded x"
  by (induction x arbitrary: n) (auto split: sum.splits)

lemma unfolded_wrap: "unfolded (wrap op e) = 1 + unfolded e"
  by (cases "(op, e)" rule: wrap.cases) auto

lemma unfolded_wraps: "unfolded (fold wrap ops e) = length ops + unfolded e"
  by (induction ops arbitrary: e) (auto simp: unfolded_wrap)

lemma chain_free_wrap: "chain_free (wrap op e) = chain_free e"
  by (cases "(op, e)" rule: wrap.cases) auto

lemma chain_free_wraps: "chain_free (fold wrap ops e) = chain_free e"
  by (induction ops arbitrary: e) (auto simp: chain_free_wrap)

lemma unfolded_on_left: "unfolded (on_left ops e) = length ops + unfolded e"
  by (cases "(ops, e)" rule: on_left.cases) (auto simp: unfolded_wraps)

lemma chain_free_on_left: "chain_free (on_left ops e) = chain_free e"
  by (cases "(ops, e)" rule: on_left.cases) (auto simp: chain_free_wraps)

lemma unfuse_sound: "chain_free (unfuse q) \<and> unfolded (unfuse q) = unfolded q"
  by (induction q) (auto simp: unfolded_on_left chain_free_on_left)

lemma read_back_sound: "sound_reader read_back"
  by (simp add: sound_reader_def read_back_def unfuse_sound)


lemma requires_shape:
  assumes sound: "sound_reader reread"
    and t: "task_factory optimize raquery step = Inr t"
    and c: "requires reread t = Inr calls"
  shows "(calls = [] \<and> task_step t = [])
    \<or> (\<exists>child. calls = [(child, step + 1)] \<and> task_step t = [step]
          \<and> unfolded child < unfolded raquery)
    \<or> (\<exists>l r. calls = [(l, step + 1), (r, step + unfolded l + 1)] \<and> task_step t = [step]
          \<and> 1 + unfolded l + unfolded r \<le> unfolded raquery)"
proof -
  define q where "q = (if optimize then try_fold_chain raquery else raquery)"
  have same: "unfolded q = unfolded raquery"
    by (simp add: q_def unfolded_fold)
  have t': "(case q of
        ChainedOp ops e \<Rightarrow> Inr (ChainedTask q step)
      | Select c e \<Rightarrow> Inr (SelectTask q step)
      | RelRef r \<Rightarrow> Inr (InputData (r @ ''.json''))
      | Join l c r \<Rightarrow> Inr (JoinTask q step)
      | Project attrs e \<Rightarrow> Inr (ProjectTask q step)
      | Rename relname attrnames e \<Rightarrow> Inr (RenameTask q step)
      | Cross l r \<Rightarrow> Inl Unsupported) = Inr t"
    using t unfolding task_factory_def Let_def q_def [symmetric] .
  have read: "\<And>p. reread q = Inr p \<Longrightarrow> chain_free p \<and> unfolded p \<le> unfolded raquery"
    using sound same unfolding sound_reader_def by metis
  show ?thesis
  proof (cases q)
    case (RelRef r)
    with t' c show ?thesis by auto
  next
    case (Select cond e)
    with t' have tt: "t = SelectTask q step" by auto
    with c obtain p where p: "reread q = Inr p" by (auto split: sum.splits)
    with c tt obtain c' e' where pe: "p = Select c' e'" and calls: "calls = [(e', step + 1)]"
      by (auto split: ra.splits)
    from read [OF p] pe calls tt show ?thesis by auto
  next
    case (Project attrs e)
    with t' have tt: "t = ProjectTask q step" by auto
    with c obtain p where p: "reread q = Inr p" by (auto split: sum.splits)
    with c tt obtain a' e' where pe: "p = Project a' e'" and calls: "calls = [(e', step + 1)]"
      by (auto split: ra.splits)
    from read [OF p] pe calls tt show ?thesis by auto
  next
    case (Rename relname attrnames e)
    with t' have tt: "t = RenameTask q step" by auto
    with c obtain p where p: "reread q = Inr p" by (auto split: sum.splits)
    with c tt obtain r' a' e' where pe: "p = Rename r' a' e'" and calls: "calls = [(e', step + 1)]"
      by (auto split: ra.splits)
    from read [OF p] pe calls tt show ?thesis by auto
  next
    case (Cross l r)
    with t' show ?thesis by auto
  next
    case (Join l cond r)
    with t' have tt: "t = JoinTask q step" by auto
    with c obtain p where p: "reread q = Inr p" by (auto split: sum.splits)
    with c tt obtain l' c' r' n where pe: "p = Join l' c' r'"
      and n: "count_steps l' = Inr n"
      and calls: "calls = [(l', step + 1), (r', step + n + 1)]"
      by (auto split: ra.splits sum.splits)
    from read [OF p] pe have cf: "chain_free l'" and le: "1 + unfolded l' + unfolded r' \<le> unfolded raquery"
      by auto
    have "n = unfolded l'"
      using chain_free_count [OF cf n] .
    with calls tt le show ?thesis by auto
  next
    case (ChainedOp ops e)
    with t' have tt: "t = ChainedTask q step" by auto
    with c obtain p where p: "reread q = Inr p" by (auto split: sum.splits)
    with c tt obtain child where ch: "first_input (try_fold_chain p) = Some child"
      and calls: "calls = [(child, step + 1)]"
      by (auto split: option.splits)
    from read [OF p] have cf: "chain_free p" and le: "unfolded p \<le> unfolded raquery"
      by auto
    from fold_input_smaller [OF cf ch] le have "unfolded child < unfolded raquery"
      by simp
    with calls tt show ?thesis by auto
  qed
qed

lemma dag_steps_range:
  "sound_reader reread \<Longrightarrow> dag_steps fuel reread optimize raquery step = Some (Inr steps) \<Longrightarrow>
     distinct steps \<and> (\<forall>x\<in>set steps. step \<le> x \<and> x < step + unfolded raquery)"
proof (induction fuel arbitrary: raquery step steps)
  case 0
  then show ?case by simp
next
  case (Suc fuel)
  note sound = Suc.prems(1)
  from Suc.prems(2) obtain t calls below
    where t: "task_factory optimize raquery step = Inr t"
      and c: "requires reread t = Inr calls"
      and g: "gather (map (\<lambda>call. dag_steps fuel reread optimize (fst call) (snd call)) calls)
                = Some (Inr below)"
      and steps: "steps = task_step t @ below"
    by (auto split: sum.splits option.splits)
  note IH = Suc.IH [OF sound]
  from requires_shape [OF sound t c] show ?case
  proof (elim disjE exE conjE)
    assume "calls = []" "task_step t = []"
    with g steps show ?thesis by auto
  next
    fix child
    assume calls: "calls = [(child, step + 1)]" and ts: "task_step t = [step]"
      and less: "unfolded child < unfolded raquery"
    from g calls have b: "dag_steps fuel reread optimize child (step + 1) = Some (Inr below)"
      by (auto split: sum.splits option.splits elim: gather.elims)
    from IH [OF b]
    have "distinct below \<and> (\<forall>x\<in>set below. step + 1 \<le> x \<and> x < step + 1 + unfolded child)" .
    with steps ts less show ?thesis by fastforce
  next
    fix l r
    assume calls: "calls = [(l, step + 1), (r, step + unfolded l + 1)]"
      and ts: "task_step t = [step]"
      and sz: "1 + unfolded l + unfolded r \<le> unfolded raquery"
    from g calls obtain a b
      where a: "dag_steps fuel reread optimize l (step + 1) = Some (Inr a)"
        and b: "dag_steps fuel reread optimize r (step + unfolded l + 1) = Some (Inr b)"
        and below: "below = a @ b"
      by (auto split: sum.splits option.splits elim!: gather.elims)
    from IH [OF a]
    have A: "distinct a \<and> (\<forall>x\<in>set a. step + 1 \<le> x \<and> x < step + 1 + unfolded l)" .
    from IH [OF b]
    have B: "distinct b \<and> (\<forall>x\<in>set b. step + unfolded l + 1 \<le> x
        \<and> x < step + unfolded l + 1 + unfolded r)" .
    from A B have "set a \<inter> set b = {}" by fastforce
    with A B steps ts below sz show ?thesis by fastforce
  qed
qed

lemma dag_steps_returns:
  "sound_reader reread \<Longrightarrow> unfolded raquery < fuel \<Longrightarrow>
     dag_steps fuel reread optimize raquery step \<noteq> None"
proof (induction fuel arbitrary: raquery step)
  case 0
  then show ?case by simp
next
  case (Suc fuel)
  note sound = Suc.prems(1)
  show ?case
  proof (cases "task_factory optimize raquery step")
    case (Inl err)
    then show ?thesis by simp
  next
    case (Inr t)
    show ?thesis
    proof (cases "requires reread t")
      case (Inl err)
      with Inr show ?thesis by simp
    next
      case c: (Inr calls)
      from requires_shape [OF sound Inr c] show ?thesis
      proof (elim disjE exE conjE)
        assume "calls = []" "task_step t = []"
        with Inr c show ?thesis by simp
      next
        fix child
        assume calls: "calls = [(child, step + 1)]"
          and less: "unfolded child < unfolded raquery"
        with Suc.prems have "unfolded child < fuel" by simp
        from Suc.IH [OF sound this, of "step + 1"]
        obtain res where "dag_steps fuel reread optimize child (step + 1) = Some res"
          by auto
        with Inr c calls show ?thesis
          by (cases res) (auto split: sum.splits option.splits)
      next
        fix l r
        assume calls: "calls = [(l, step + 1), (r, step + unfolded l + 1)]"
          and sz: "1 + unfolded l + unfolded r \<le> unfolded raquery"
        with Suc.prems have "unfolded l < fuel" "unfolded r < fuel" by simp_all
        from Suc.IH [OF sound this(1), of "step + 1"]
          Suc.IH [OF sound this(2), of "step + unfolded l + 1"]
        obtain ra rb where "dag_steps fuel reread optimize l (step + 1) = Some ra"
          "dag_steps fuel reread optimize r (step + unfolded l + 1) = Some rb"
          by auto
        with Inr c calls show ?thesis
          by (cases ra; cases rb) (auto split: sum.splits option.splits)
      qed
    qed
  qed
qed

lemma gather_later:
  "gather (map f calls) = Some res \<Longrightarrow>
   (\<And>call r. call \<in> set calls \<Longrightarrow> f call = Some r \<Longrightarrow> g call = Some r) \<Longrightarrow>
   gather (map g calls) = Some res"
proof (induction calls arbitrary: res)
  case Nil
  then show ?case by simp
next
  case (Cons call calls)
  from Cons.prems(1) obtain r where r: "f call = Some r"
    by (cases "f call") auto
  then have g: "g call = Some r"
    using Cons.prems(2) by simp
  show ?case
  proof (cases r)
    case (Inl err)
    from Cons.prems(1) have "res = Inl err"
      by (simp add: r Inl)
    then show ?thesis by (simp add: g Inl)
  next
    case (Inr xs)
    from Cons.prems(1) obtain rest where rest: "gather (map f calls) = Some rest"
      by (auto simp: r Inr split: option.splits)
    have "gather (map g calls) = Some rest"
      using Cons.IH [OF rest] Cons.prems(2) by simp
    with rest Cons.prems(1) show ?thesis by (simp add: r g Inr)
  qed
qed

lemma dag_steps_more_fuel:
  "dag_steps fuel reread optimize raquery step = Some res \<Longrightarrow>
   dag_steps (Suc fuel) reread optimize raquery step = Some res"
proof (induction fuel arbitrary: raquery step res)
  case 0
  then show ?case by simp
next
  case (Suc fuel)
  show ?case
  proof (cases "task_factory optimize raquery step")
    case (Inl err)
    with Suc.prems show ?thesis by simp
  next
    case t: (Inr t)
    show ?thesis
    proof (cases "requires reread t")
      case (Inl err)
      with t Suc.prems show ?thesis by simp
    next
      case c: (Inr calls)
      from Suc.prems t c obtain below
        where g: "gather (map (\<lambda>call. dag_steps fuel reread optimize (fst call) (snd call)) calls)
                    = Some below"
        by (auto split: option.splits)
      have "gather (map (\<lambda>call. dag_steps (Suc fuel) reread optimize (fst call) (snd call)) calls)
                    = Some below"
        by (rule gather_later [OF g]) (rule Suc.IH)
      with g t c Suc.prems show ?thesis
        by (simp del: dag_steps.simps add: dag_steps.simps(2) [of "Suc fuel"] dag_steps.simps(2) [of fuel])
    qed
  qed
qed

lemma dag_steps_any_fuel:
  "dag_steps fuel reread optimize raquery step = Some res \<Longrightarrow>
   dag_steps (fuel + k) reread optimize raquery step = Some res"
  by (induction k) (auto simp del: dag_steps.simps dest: dag_steps_more_fuel)

text \<open>
  C6: the stage count of a relation reference is 1, of a single-input operator, a
  ChainedOp of any length included, one more than that of its input, of a Join one more
  than the sum of those of its two inputs; a Join task whose query reads back as a Join
  compiles the left input at \<open>step + 1\<close> and the right input at
  \<open>step + count_steps(left) + 1\<close>; and whenever reading back gives trees of the
  grammar with no more operators than were written, the compilation of a query, with
  or without chain folding, ends within \<open>unfolded q + 1\<close> levels of \<open>requires\<close>,
  and the steps of the compiled tasks are pairwise different and lie in the
  \<open>unfolded q\<close> indices from the step of the root on (an \<open>InputData\<close> task has
  no step). More fuel does not change what a compilation gives.
\<close>

theorem stage_counts_and_unique_steps:
  "count_steps (RelRef rel) = Inr 1
   \<and> (count_steps e = Inr n \<longrightarrow>
        count_steps (Select c e) = Inr (1 + n)
        \<and> count_steps (Project attrs e) = Inr (1 + n)
        \<and> count_steps (Rename relname attrnames e) = Inr (1 + n)
        \<and> count_steps (ChainedOp ops e) = Inr (1 + n))
   \<and> (count_steps (Join l c r) = Inr m
        \<longleftrightarrow> (\<exists>a b. count_steps l = Inr a \<and> count_steps r = Inr b \<and> m = 1 + a + b))
   \<and> (reread q = Inr (Join l c r) \<longrightarrow> count_steps l = Inr a \<longrightarrow>
        requires reread (JoinTask q step) = Inr [(l, step + 1), (r, step + a + 1)])
   \<and> (sound_reader reread \<longrightarrow>
        (\<exists>res. dag_steps (Suc (unfolded q)) reread optimize q step = Some res)
        \<and> (dag_steps fuel reread optimize q step = Some (Inr steps) \<longrightarrow>
             distinct steps \<and> (\<forall>x\<in>set steps. step \<le> x \<and> x < step + unfolded q)))
   \<and> (dag_steps fuel reread optimize q step = Some out \<longrightarrow>
        dag_steps (fuel + k) reread optimize q step = Some out)"
proof -
  have counts: "count_steps (RelRef rel) = Inr 1
   \<and> (count_steps e = Inr n \<longrightarrow>
        count_steps (Select c e) = Inr (1 + n)
        \<and> count_steps (Project attrs e) = Inr (1 + n)
        \<and> count_steps (Rename relname attrnames e) = Inr (1 + n)
        \<and> count_steps (ChainedOp ops e) = Inr (1 + n))
   \<and> (count_steps (Join l c r) = Inr m
        \<longleftrightarrow> (\<exists>a b. count_steps l = Inr a \<and> count_steps r = Inr b \<and> m = 1 + a + b))"
    by (auto split: sum.splits)
  have offsets: "reread q = Inr (Join l c r) \<longrightarrow> count_steps l = Inr a \<longrightarrow>
        requires reread (JoinTask q step) = Inr [(l, step + 1), (r, step + a + 1)]"
    by simp
  have returns: "sound_reader reread \<longrightarrow>
        (\<exists>res. dag_steps (Suc (unfolded q)) reread optimize q step = Some res)"
    using dag_steps_returns [of reread q "Suc (unfolded q)" optimize step] by auto
  have unique: "sound_reader reread \<longrightarrow>
        dag_steps fuel reread optimize q step = Some (Inr steps) \<longrightarrow>
          distinct steps \<and> (\<forall>x\<in>set steps. step \<le> x \<and> x < step + unfolded q)"
    using dag_steps_range [of reread fuel optimize q step steps] by blast
  have later: "dag_steps fuel reread optimize q step = Some out \<longrightarrow>
        dag_steps (fuel + k) reread optimize q step = Some out"
    using dag_steps_any_fuel [of fuel reread optimize q step out k] by blast
  from counts offsets returns unique later show ?thesis by blast
qed

theorem stage_counts_and_unique_steps_witness:
  "sound_reader read_back
   \<and> count_steps (RelRef ''Person'') = Inr 1
   \<and> count_steps (Select person_id_5 (RelRef ''Person'')) = Inr 2
   \<and> count_steps join_of_runs = Inr 6
   \<and> requires read_back (JoinTask join_of_runs 1) =
        Inr [(Select person_id_5 (RelRef ''Person''), 2),
             (Project [Attr (Some ''Dept'') ''pid''] (Select dept_id_10 (RelRef ''Dept'')), 4)]
   \<and> dag_steps 7 read_back True join_of_runs 1 = Some (Inr [1, 2, 4])
   \<and> dag_steps 7 read_back False join_of_runs 1 = Some (Inr [1, 2, 4, 5])
   \<and> dag_steps 6 read_back True run_over_join 1 = Some (Inr [1, 2])
   \<and> dag_steps 6 read_back False run_over_join 1 = Some (Inr [1, 2, 3])
   \<and> distinct [1, 2, 4, 5 :: nat]"
proof -
  have t: "dag_steps 7 read_back True join_of_runs 1 = Some (Inr [1, 2, 4])"
    by code_simp
  have f: "dag_steps 7 read_back False join_of_runs 1 = Some (Inr [1, 2, 4, 5])"
    by code_simp
  have t': "dag_steps 6 read_back True run_over_join 1 = Some (Inr [1, 2])"
    by code_simp
  have f': "dag_steps 6 read_back False run_over_join 1 = Some (Inr [1, 2, 3])"
    by code_simp
  have rb: "read_back join_of_runs =
      Inr (Join (Select person_id_5 (RelRef ''Person'')) person_dept_cond
        (Project [Attr (Some ''Dept'') ''pid''] (Select dept_id_10 (RelRef ''Dept''))))"
    by code_simp
  have n: "count_steps join_of_runs = Inr 6"
    by code_simp
  show ?thesis
    using t f t' f' rb n read_back_sound stage_counts_and_unique_steps
      [where reread = read_back and optimize = False and step = 1 and fuel = 7
         and steps = "[1, 2, 4, 5]" and q = join_of_runs
         and rel = "''Person''" and e = "RelRef ''Person''" and n = 1 and c = person_dept_cond
         and attrs = "[]" and relname = None and attrnames = Star and ops = "[]"
         and l = "Select person_id_5 (RelRef ''Person'')"
         and r = "Project [Attr (Some ''Dept'') ''pid''] (Select dept_id_10 (RelRef ''Dept''))"
         and m = 6 and a = 2 and out = "Inr [1, 2, 4, 5]" and k = 0]
    by simp
qed

section \<open>A folded chain against its unfused stages\<close>

text \<open>
  C2: a vertical run of Select, Project and Rename nodes, folded into one ChainedOp, is
  to leave the same (relation, tuple) records as its unfused stages. It does not when the
  run has a projection. On a row of a join result with the keys \<open>Person.id\<close> and
  \<open>Dept.id\<close>, the run \<open>\project_{Dept.id} \select_{Person.id=1}\<close> folds to
  \<open>[select, project]\<close>; the chained project matches by suffix only and keeps the
  first key ending in \<open>.id\<close>, which is \<open>Person.id\<close>, under the label \<open>Person\<close>,
  while the Project task takes the exact key \<open>Dept.id\<close> and its reducer labels the
  record \<open>Dept\<close>. On the scenario of the specification with unqualified keys the tuples
  agree and the labels differ: \<open>Person\<close> against \<open>result\<close>.
\<close>

theorem folded_chain_differs_from_stages:
  "try_fold_chain (Project [Attr (Some ''Dept'') ''id'']
       (Select person_id_1 (Join (RelRef ''Person'') person_dept_cond (RelRef ''Dept''))))
     = ChainedOp [OpSelect person_id_1, OpProject [Attr (Some ''Dept'') ''id'']]
         (Join (RelRef ''Person'') person_dept_cond (RelRef ''Dept''))
   \<and> run_chained [OpSelect person_id_1, OpProject [Attr (Some ''Dept'') ''id'']]
         [(''Person'', ana @ dept10)]
       = Inr [(''Person'', Some [(''Person.id'', VInt 1)])]
   \<and> run_unfused [OpSelect person_id_1, OpProject [Attr (Some ''Dept'') ''id'']]
         [(''Person'', ana @ dept10)]
       = Inr [(''Dept'', [(''Dept.id'', VInt 10)])]
   \<and> run_chained [OpSelect id_1, OpProject [Attr None ''name'']]
         [(''Person'', [(''id'', VInt 1), (''name'', VStr ''Ana'')]),
          (''Person'', [(''id'', VInt 2), (''name'', VStr ''Bob'')])]
       = Inr [(''Person'', Some [(''name'', VStr ''Ana'')])]
   \<and> run_unfused [OpSelect id_1, OpProject [Attr None ''name'']]
         [(''Person'', [(''id'', VInt 1), (''name'', VStr ''Ana'')]),
          (''Person'', [(''id'', VInt 2), (''name'', VStr ''Bob'')])]
       = Inr [(''result'', [(''name'', VStr ''Ana'')])]"
  by code_simp

section \<open>Projection push-down changes the tree it is given\<close>

text \<open>
  C8: an optimizer pass is to leave its input tree as it was and return a new tree.
  \<open>rule_push_down_projections\<close> on the caller's tree at address 4 returns address 4
  itself, and the node at that address now has another input: the tree read from the
  caller's address before the call has the join over the two relations, after the call
  it has the join over two inserted projections.
\<close>

theorem projection_push_down_mutates_input:
  "rule_push_down_projections 4 scenario_dd caller_heap 4
     = Some (Inr (caller_heap [4 := HSelect name_ana 8] @
         [HProject [Attr (Some ''Person'') ''id'', Attr None ''id'',
                    Attr (Some ''Person'') ''name''] 0,
          HProject [Attr None ''id'', Attr (Some ''Dept'') ''pid'', Attr None ''pid''] 1,
          HJoin 5 person_dept_cond 6,
          HProject [Attr (Some ''Person'') ''name''] 7], 4))
   \<and> read_tree 5 caller_heap 4
     = Some (Select name_ana (Project [Attr (Some ''Person'') ''name'']
         (Join (RelRef ''Person'') person_dept_cond (RelRef ''Dept''))))
   \<and> read_tree 5 (caller_heap [4 := HSelect name_ana 8] @
         [HProject [Attr (Some ''Person'') ''id'', Attr None ''id'',
                    Attr (Some ''Person'') ''name''] 0,
          HProject [Attr None ''id'', Attr (Some ''Dept'') ''pid'', Attr None ''pid''] 1,
          HJoin 5 person_dept_cond 6,
          HProject [Attr (Some ''Person'') ''name''] 7]) 4
     = Some (Select name_ana (Project [Attr (Some ''Person'') ''name'']
         (Join
            (Project [Attr (Some ''Person'') ''id'', Attr None ''id'',
                      Attr (Some ''Person'') ''name''] (RelRef ''Person''))
            person_dept_cond
            (Project [Attr None ''id'', Attr (Some ''Dept'') ''pid'', Attr None ''pid'']
               (RelRef ''Dept'')))))"
  by code_simp

end
